theory Spec2Isabelle
  imports Main "HOL-Library.Word" "HOL-Library.Multiset"
begin

unbundle bit_operations_syntax

section \<open>The tables of the event store\<close>

text \<open>
  The PostgreSQL backend keeps its state in tables. A row of a table is a record, a table
  is the list of its rows. Timestamps (\<^verbatim>\<open>TIMESTAMP\<close>, \<^verbatim>\<open>NOW()\<close>) are counted in
  microseconds, the resolution of PostgreSQL; \<^verbatim>\<open>NOW()\<close> is an argument of every function
  that reads the clock. A \<^verbatim>\<open>UUID\<close> is a 128-bit value.
\<close>

type_synonym timestamp = int
type_synonym uuid = "128 word"

text \<open>
  The \<^verbatim>\<open>events\<close> table. The queries of \<^verbatim>\<open>store.go\<close> and of the migration name
  the columns \<^verbatim>\<open>global_sequence_number\<close>, \<^verbatim>\<open>stream_type\<close>, \<^verbatim>\<open>stream_id\<close> and
  \<^verbatim>\<open>version\<close>; the remaining three are the event name, the payload and the metadata
  that \<^verbatim>\<open>appendEvent\<close> hands to the stored procedure.
\<close>

record event_row =
  global_sequence_number :: int
  stream_type :: string
  stream_id :: string
  version :: int
  event_type :: string
  event_payload :: string
  event_metadata :: string

text \<open>
  \<^verbatim>\<open>CREATE TABLE consumer_group_leases\<close>. The column \<^verbatim>\<open>member\<close> is called
  \<open>member_index\<close> here.
\<close>

record consumer_group_lease =
  lease_id :: uuid
  consumer_group_name :: string
  member_index :: int
  leased_at :: timestamp
  expires_at :: timestamp
  last_action_at :: timestamp

text \<open>
  The database: the tables, and the sequence \<^verbatim>\<open>events_global_sequence_number_seq\<close>
  (the value the next \<^verbatim>\<open>nextval\<close> returns). \<^verbatim>\<open>consumer_groups\<close> maps a group name
  (its primary key) to the group's size.
\<close>

record database =
  events :: "event_row list"
  events_global_sequence_number_seq :: int
  consumer_groups :: "(string \<times> int) list"
  consumer_group_leases :: "consumer_group_lease list"

text \<open>
  Errors raised inside PostgreSQL. The first four are the \<^verbatim>\<open>RAISE EXCEPTION\<close>
  statements of the migration:
  \<^item> \<open>ErrGroupNotFound\<close>: \<^verbatim>\<open>ERR-0001: consumer group was not found, ...\<close>
  \<^item> \<open>ErrCapacityExceeded\<close>: \<^verbatim>\<open>ERR-0002: all possible leases have been already reserved\<close>
  \<^item> \<open>ErrLeaseNotFound\<close>: \<^verbatim>\<open>0001: consumer group lease was not found, ...\<close>
  \<^item> \<open>ErrLeaseExpired\<close>: \<^verbatim>\<open>0002: consumer group lease has expired\<close>

  The others are raised by PostgreSQL itself: the absolute value of the smallest
  \<^verbatim>\<open>BIGINT\<close>, \<^verbatim>\<open>MOD\<close> by zero, a duplicate primary key, an exception raised by
  a stored procedure that is not among the sources, a lost connection.
\<close>

datatype pg_error =
    ErrGroupNotFound
  | ErrCapacityExceeded
  | ErrLeaseNotFound
  | ErrLeaseExpired
  | bigint_out_of_range
  | division_by_zero
  | unique_violation
  | raise_exception string
  | connection_failure

section \<open>Append (store.go)\<close>

text \<open>
  The errors \<^verbatim>\<open>Append\<close> and the stream functions return. \<open>ErrConflict\<close> is the
  sentinel \<^verbatim>\<open>eventstore.ErrConflict\<close>. The others are the values built by
  \<^verbatim>\<open>fmt.Errorf("...: %w", err)\<close>, which wrap what the database driver reported, and
  \<open>DriverError\<close>, an error of the driver returned as it is (the \<^verbatim>\<open>rollbackErr\<close>
  of the deferred function).
\<close>

datatype go_error =
    ErrConflict
  | FailedToOpenTransaction pg_error
  | FailedToMarshalPayload
  | FailedToMarshalMetadata
  | FailedToAppendEvent pg_error
  | FailedToCommit pg_error
  | FailedToGetEvents pg_error
  | DriverError pg_error

text \<open>
  \<^verbatim>\<open>eventstore.StreamID\<close> and \<^verbatim>\<open>eventually.Event\<close>, as far as \<^verbatim>\<open>appendEvent\<close>
  looks at them. \<open>Payload_json\<close> is the outcome of \<^verbatim>\<open>json.Marshal(event.Payload)\<close>,
  \<open>None\<close> when it returns an error. \<open>Metadata\<close> is \<open>None\<close> for a nil map, and
  otherwise the outcome of \<^verbatim>\<open>json.Marshal\<close> on the map. An event has a payload: a nil
  \<^verbatim>\<open>Payload\<close>, on which \<^verbatim>\<open>event.Payload.Name()\<close> panics, is not an \<open>Event\<close>.
\<close>

record StreamID =
  Type :: string
  Name :: string

record Event =
  Payload_Name :: string
  Payload_json :: "string option"
  Metadata :: "string option option"

text \<open>
  The stored procedure \<^verbatim>\<open>append_to_store($1, ..., $6)\<close> is created by an earlier
  migration that is not among the sources, so \<^verbatim>\<open>Append\<close> takes it as a parameter: a
  function from the database inside the transaction and the six arguments to an exception
  or the new version and the database after it.
\<close>

type_synonym stored_procedure =
  "database \<Rightarrow> string \<Rightarrow> string \<Rightarrow> int \<Rightarrow> string \<Rightarrow> string \<Rightarrow> string \<Rightarrow> pg_error + (int \<times> database)"

text \<open>
  What the driver answers to \<^verbatim>\<open>BeginTx\<close>, \<^verbatim>\<open>Commit\<close> and \<^verbatim>\<open>Rollback\<close>:
  \<open>None\<close> for success.
\<close>

record driver =
  BeginTx :: "pg_error option"
  Commit :: "pg_error option"
  Rollback :: "pg_error option"

text \<open>
  \<^verbatim>\<open>appendEvent\<close>: marshal payload and metadata (an empty map in place of nil), call the
  stored procedure, wrap its error.
\<close>

definition appendEvent ::
  "stored_procedure \<Rightarrow> database \<Rightarrow> StreamID \<Rightarrow> int \<Rightarrow> Event \<Rightarrow> go_error + (int \<times> database)" where
  "appendEvent append_to_store tx id' expected event =
     (case Payload_json event of
        None \<Rightarrow> Inl FailedToMarshalPayload
      | Some eventPayload \<Rightarrow>
          (case (case Metadata event of None \<Rightarrow> Some ''{}'' | Some m \<Rightarrow> m) of
             None \<Rightarrow> Inl FailedToMarshalMetadata
           | Some metadata \<Rightarrow>
               (case append_to_store tx (Type id') (Name id') expected
                       (Payload_Name event) eventPayload metadata of
                  Inl err \<Rightarrow> Inl (FailedToAppendEvent err)
                | Inr (newVersion, tx') \<Rightarrow> Inr (newVersion, tx'))))"

text \<open>
  The loop of \<^verbatim>\<open>Append\<close> over the events. \<open>v\<close> is the named result (0 before the
  first event), \<open>tx\<close> the database as the transaction sees it. The loop returns the
  transaction's database together with the error of the first event that fails, or with
  the last version.
\<close>

fun appendEvents ::
  "stored_procedure \<Rightarrow> database \<Rightarrow> StreamID \<Rightarrow> int \<Rightarrow> int \<Rightarrow> Event list
     \<Rightarrow> database \<times> (go_error + int)" where
  "appendEvents append_to_store tx id' expected v [] = (tx, Inr v)"
| "appendEvents append_to_store tx id' expected v (event # events') =
     (case appendEvent append_to_store tx id' expected event of
        Inl err \<Rightarrow> (tx, Inl err)
      | Inr (v', tx') \<Rightarrow> appendEvents append_to_store tx' id' v' v' events')"

text \<open>
  A rollback discards what the transaction wrote to the tables. A PostgreSQL sequence
  is not transactional: the numbers the transaction drew stay drawn.
\<close>

definition rolled_back :: "database \<Rightarrow> database \<Rightarrow> database" where
  "rolled_back db tx =
     db\<lparr>events_global_sequence_number_seq := events_global_sequence_number_seq tx\<rparr>"

text \<open>
  The deferred function of \<^verbatim>\<open>Append\<close>: when the named result \<open>err\<close> is set, roll
  back, and return the rollback's own error in its place if it has one.
\<close>

definition deferred :: "driver \<Rightarrow> go_error \<Rightarrow> go_error" where
  "deferred drv err = (case Rollback drv of Some rollbackErr \<Rightarrow> DriverError rollbackErr | None \<Rightarrow> err)"

text \<open>
  \<^verbatim>\<open>Append\<close>. It returns the database other connections see afterwards, and the
  error or the version.
\<close>

definition Append ::
  "stored_procedure \<Rightarrow> driver \<Rightarrow> database \<Rightarrow> StreamID \<Rightarrow> int \<Rightarrow> Event list
     \<Rightarrow> database \<times> (go_error + int)" where
  "Append append_to_store drv db id' expected events' =
     (case BeginTx drv of
        Some err \<Rightarrow> (db, Inl (FailedToOpenTransaction err))
      | None \<Rightarrow>
          (case appendEvents append_to_store db id' expected 0 events' of
             (tx, Inl err) \<Rightarrow> (rolled_back db tx, Inl (deferred drv err))
           | (tx, Inr v) \<Rightarrow>
               (case Commit drv of
                  Some err \<Rightarrow> (rolled_back db tx, Inl (deferred drv (FailedToCommit err)))
                | None \<Rightarrow> (tx, Inr v))))"

text \<open>
  Modelled from the spec: the stored procedure \<^verbatim>\<open>append_to_store\<close>, which no source
  file defines. The spec (4.1): read the current version of the stream, fail if it does
  not equal the expected value unless that is the sentinel for "no check", assign
  version = current + 1 and a freshly reserved global sequence number, persist the event.
  The current version of a stream is the version of its last event (spec, 3), 0 for a
  stream with no event. The sentinel's value is a parameter. The procedure can only raise
  a database exception.
\<close>

definition stream_version :: "database \<Rightarrow> string \<Rightarrow> string \<Rightarrow> int" where
  "stream_version db typ name =
     (case rev (filter (\<lambda>e. stream_type e = typ \<and> stream_id e = name) (events db)) of
        [] \<Rightarrow> 0
      | e # _ \<Rightarrow> version e)"

definition append_to_store :: "int \<Rightarrow> stored_procedure" where
  "append_to_store VersionCheckAny db typ name expected_version event_name payload metadata =
     (let current = stream_version db typ name in
      if expected_version \<noteq> VersionCheckAny \<and> expected_version \<noteq> current
      then Inl (raise_exception ''stream version check failed'')
      else Inr (current + 1,
        db\<lparr>events := events db @
              [\<lparr>global_sequence_number = events_global_sequence_number_seq db,
                stream_type = typ, stream_id = name, version = current + 1,
                event_type = event_name, event_payload = payload,
                event_metadata = metadata\<rparr>],
           events_global_sequence_number_seq := events_global_sequence_number_seq db + 1\<rparr>))"

section \<open>Reading streams (store.go)\<close>

text \<open>
  \<^verbatim>\<open>StreamAll\<close>, \<^verbatim>\<open>StreamByType\<close> and \<^verbatim>\<open>Stream\<close> run one query and hand its rows
  to \<^verbatim>\<open>rowsToStream\<close>, which no source file defines: it is a parameter. \<open>query_err\<close>
  is the error of \<^verbatim>\<open>QueryContext\<close>, \<open>From\<close> the field \<^verbatim>\<open>selectt.From\<close>.
\<close>

definition StreamAll ::
  "(event_row list \<Rightarrow> go_error + 'a) \<Rightarrow> pg_error option \<Rightarrow> database \<Rightarrow> int \<Rightarrow> go_error + 'a" where
  "StreamAll rowsToStream query_err db From =
     (case query_err of
        Some err \<Rightarrow> Inl (FailedToGetEvents err)
      | None \<Rightarrow> rowsToStream (sort_key global_sequence_number
                  (filter (\<lambda>e. global_sequence_number e \<ge> From) (events db))))"

definition StreamByType ::
  "(event_row list \<Rightarrow> go_error + 'a) \<Rightarrow> pg_error option \<Rightarrow> database \<Rightarrow> string \<Rightarrow> int
     \<Rightarrow> go_error + 'a" where
  "StreamByType rowsToStream query_err db typ From =
     (case query_err of
        Some err \<Rightarrow> Inl (FailedToGetEvents err)
      | None \<Rightarrow> rowsToStream (sort_key global_sequence_number
                  (filter (\<lambda>e. stream_type e = typ \<and> global_sequence_number e \<ge> From)
                     (events db))))"

definition Stream ::
  "(event_row list \<Rightarrow> go_error + 'a) \<Rightarrow> pg_error option \<Rightarrow> database \<Rightarrow> StreamID \<Rightarrow> int
     \<Rightarrow> go_error + 'a" where
  "Stream rowsToStream query_err db id' From =
     (case query_err of
        Some err \<Rightarrow> Inl (FailedToGetEvents err)
      | None \<Rightarrow> rowsToStream (sort_key version
                  (filter (\<lambda>e. stream_type e = Type id' \<and> stream_id e = Name id' \<and> version e \<ge> From)
                     (events db))))"

section \<open>MD5\<close>

text \<open>
  \<^verbatim>\<open>hash_64\<close> calls PostgreSQL's \<^verbatim>\<open>md5()\<close>, the MD5 digest of RFC 1321 printed as
  32 hexadecimal digits. The digest is modelled as the 128-bit number those digits write.
  A text is hashed as its bytes.

  \<open>md5_K\<close> is the table \<open>T\<close> of the RFC (the integer part of \<open>2\<^sup>3\<^sup>2 * |sin i|\<close>),
  \<open>md5_s\<close> the shift of each of the 64 steps.
\<close>

definition md5_K :: "32 word list" where
  "md5_K =
     [0xd76aa478, 0xe8c7b756, 0x242070db, 0xc1bdceee, 0xf57c0faf, 0x4787c62a,
      0xa8304613, 0xfd469501, 0x698098d8, 0x8b44f7af, 0xffff5bb1, 0x895cd7be,
      0x6b901122, 0xfd987193, 0xa679438e, 0x49b40821, 0xf61e2562, 0xc040b340,
      0x265e5a51, 0xe9b6c7aa, 0xd62f105d, 0x02441453, 0xd8a1e681, 0xe7d3fbc8,
      0x21e1cde6, 0xc33707d6, 0xf4d50d87, 0x455a14ed, 0xa9e3e905, 0xfcefa3f8,
      0x676f02d9, 0x8d2a4c8a, 0xfffa3942, 0x8771f681, 0x6d9d6122, 0xfde5380c,
      0xa4beea44, 0x4bdecfa9, 0xf6bb4b60, 0xbebfbc70, 0x289b7ec6, 0xeaa127fa,
      0xd4ef3085, 0x04881d05, 0xd9d4d039, 0xe6db99e5, 0x1fa27cf8, 0xc4ac5665,
      0xf4292244, 0x432aff97, 0xab9423a7, 0xfc93a039, 0x655b59c3, 0x8f0ccc92,
      0xffeff47d, 0x85845dd1, 0x6fa87e4f, 0xfe2ce6e0, 0xa3014314, 0x4e0811a1,
      0xf7537e82, 0xbd3af235, 0x2ad7d2bb, 0xeb86d391]"

definition md5_s :: "nat list" where
  "md5_s =
     [7, 12, 17, 22, 7, 12, 17, 22, 7, 12, 17, 22, 7, 12, 17, 22,
      5, 9, 14, 20, 5, 9, 14, 20, 5, 9, 14, 20, 5, 9, 14, 20,
      4, 11, 16, 23, 4, 11, 16, 23, 4, 11, 16, 23, 4, 11, 16, 23,
      6, 10, 15, 21, 6, 10, 15, 21, 6, 10, 15, 21, 6, 10, 15, 21]"

text \<open>Rotation to the left by \<open>n\<close> bits, for \<open>0 < n < 32\<close>.\<close>

definition rotl32 :: "32 word \<Rightarrow> nat \<Rightarrow> 32 word" where
  "rotl32 x n = push_bit n x OR drop_bit (32 - n) x"

text \<open>
  Padding: the byte \<open>0x80\<close>, zero bytes up to 56 modulo 64, and the length of the message
  in bits as 8 bytes, the lowest first.
\<close>

definition md5_pad :: "8 word list \<Rightarrow> 8 word list" where
  "md5_pad bs =
     bs @ [0x80] @ replicate ((119 - length bs mod 64) mod 64) 0 @
     map (\<lambda>i. ucast (drop_bit (8 * i) (word_of_nat (8 * length bs) :: 64 word))) [0..<8]"

text \<open>The padded message as 32-bit words, each from 4 bytes, the lowest first.\<close>

definition le32 :: "8 word list \<Rightarrow> 32 word" where
  "le32 bs = foldr (\<lambda>b w. push_bit 8 w OR ucast b) bs 0"

fun md5_words :: "8 word list \<Rightarrow> 32 word list" where
  "md5_words (b0 # b1 # b2 # b3 # bs) = le32 [b0, b1, b2, b3] # md5_words bs"
| "md5_words _ = []"

text \<open>
  Step \<open>i\<close> of the 64 steps on a block \<open>M\<close> of 16 words, with the four auxiliary functions
  of the rounds and the index \<open>g\<close> of the word each step reads.
\<close>

definition md5_round ::
  "32 word list \<Rightarrow> 32 word \<times> 32 word \<times> 32 word \<times> 32 word \<Rightarrow> nat
     \<Rightarrow> 32 word \<times> 32 word \<times> 32 word \<times> 32 word" where
  "md5_round M st i =
     (case st of (A, B, C, D) \<Rightarrow>
        (let (F, g) =
               (if i < 16 then ((B AND C) OR (NOT B AND D), i)
                else if i < 32 then ((D AND B) OR (NOT D AND C), (5 * i + 1) mod 16)
                else if i < 48 then (B XOR C XOR D, (3 * i + 5) mod 16)
                else (C XOR (B OR NOT D), (7 * i) mod 16))
         in (D, B + rotl32 (F + A + md5_K ! i + M ! g) (md5_s ! i), B, C)))"

text \<open>A block: the 64 steps, then the sums with the state before the block.\<close>

definition md5_chunk ::
  "32 word \<times> 32 word \<times> 32 word \<times> 32 word \<Rightarrow> 32 word list
     \<Rightarrow> 32 word \<times> 32 word \<times> 32 word \<times> 32 word" where
  "md5_chunk h M =
     (case h of (a0, b0, c0, d0) \<Rightarrow>
        (case foldl (md5_round M) h [0..<64] of (A, B, C, D) \<Rightarrow>
           (a0 + A, b0 + B, c0 + C, d0 + D)))"

text \<open>All blocks of 16 words, in order.\<close>

fun md5_chunks ::
  "32 word \<times> 32 word \<times> 32 word \<times> 32 word \<Rightarrow> 32 word list
     \<Rightarrow> 32 word \<times> 32 word \<times> 32 word \<times> 32 word" where
  "md5_chunks h ws = (if length ws < 16 then h else md5_chunks (md5_chunk h (take 16 ws)) (drop 16 ws))"

text \<open>
  The digest: the four words of the final state, each as 4 bytes, the lowest first; the 16
  bytes in this order are the 32 hexadecimal digits.
\<close>

definition bytes_le32 :: "32 word \<Rightarrow> 8 word list" where
  "bytes_le32 w = map (\<lambda>i. ucast (drop_bit (8 * i) w)) [0..<4]"

definition md5 :: "string \<Rightarrow> 128 word" where
  "md5 v =
     (case md5_chunks (0x67452301, 0xefcdab89, 0x98badcfe, 0x10325476)
             (md5_words (md5_pad (map (\<lambda>c. word_of_nat (of_char c)) v))) of
        (a0, b0, c0, d0) \<Rightarrow>
          foldl (\<lambda>w b. push_bit 8 w OR ucast b) 0
            (bytes_le32 a0 @ bytes_le32 b0 @ bytes_le32 c0 @ bytes_le32 d0))"

declare md5_chunks.simps [simp del]

section \<open>Consumer groups (migration 6)\<close>

definition INTERVAL_1_HOUR :: int where
  "INTERVAL_1_HOUR = 3600000000"

text \<open>
  \<^verbatim>\<open>announce_consumer_group_member\<close>. \<open>name\<close> is the argument
  \<^verbatim>\<open>_consumer_group_name\<close>, \<open>now\<close> is \<^verbatim>\<open>NOW()\<close>, \<open>new_lease_id\<close> what \<^verbatim>\<open>uuid_generate_v4()\<close> returns for the default of \<^verbatim>\<open>lease_id\<close>; an id that
  is already in the table violates the primary key. The function returns the inserted row.
\<close>

definition announce_consumer_group_member ::
  "timestamp \<Rightarrow> uuid \<Rightarrow> database \<Rightarrow> string \<Rightarrow> pg_error + (consumer_group_lease \<times> database)" where
  "announce_consumer_group_member now new_lease_id db name =
     (case map_of (consumer_groups db) name of
        None \<Rightarrow> Inl ErrGroupNotFound
      | Some consumer_group_size \<Rightarrow>
          (let number_of_leases =
                 int (length (filter (\<lambda>cgl. consumer_group_name cgl = name \<and> expires_at cgl > now)
                                (consumer_group_leases db)))
           in if number_of_leases \<ge> consumer_group_size then Inl ErrCapacityExceeded
              else if new_lease_id \<in> lease_id ` set (consumer_group_leases db)
              then Inl unique_violation
              else
                (let lease = \<lparr>lease_id = new_lease_id, consumer_group_name = name,
                              member_index = number_of_leases, leased_at = now,
                              expires_at = now + INTERVAL_1_HOUR, last_action_at = now\<rparr>
                 in Inr (lease,
                      db\<lparr>consumer_group_leases := consumer_group_leases db @ [lease]\<rparr>))))"

text \<open>
  \<^verbatim>\<open>hash_64\<close>: \<^verbatim>\<open>left('x' || md5(value), 17)::BIT(64)::BIGINT\<close>. The first 16
  hexadecimal digits of the digest are its upper 64 bits; as a \<^verbatim>\<open>BIGINT\<close> they are
  read in two's complement (see \<open>sql_abs\<close>).
\<close>

definition hash_64 :: "string \<Rightarrow> 64 word" where
  "hash_64 v = ucast (drop_bit 64 (md5 v))"

text \<open>
  The operator \<^verbatim>\<open>@\<close> (absolute value) on a \<^verbatim>\<open>BIGINT\<close> raises "bigint out of range"
  on the smallest value. \<^verbatim>\<open>MOD\<close> raises on a zero divisor and takes the sign of the
  dividend.
\<close>

definition sql_abs :: "64 word \<Rightarrow> pg_error + int" where
  "sql_abs h = (if sint h = - (2 ^ 63) then Inl bigint_out_of_range else Inr \<bar>sint h\<bar>)"

definition sql_MOD :: "int \<Rightarrow> int \<Rightarrow> pg_error + int" where
  "sql_MOD a n = (if n = 0 then Inl division_by_zero else Inr (sgn a * (\<bar>a\<bar> mod \<bar>n\<bar>)))"

text \<open>The expression \<^verbatim>\<open>MOD(@hash_64(e.stream_id), $2)\<close> of \<^verbatim>\<open>_stream_events\<close>.\<close>

definition partition_value :: "string \<Rightarrow> int \<Rightarrow> pg_error + int" where
  "partition_value v n =
     (case sql_abs (hash_64 v) of Inl err \<Rightarrow> Inl err | Inr a \<Rightarrow> sql_MOD a n)"

text \<open>
  The condition \<^verbatim>\<open>MOD(@hash_64(e.stream_id), $2) = $3\<close> on one row. \<open>$2\<close> is the size
  the \<^verbatim>\<open>LEFT JOIN\<close> found, \<open>None\<close> for \<^verbatim>\<open>NULL\<close>: then the comparison is
  \<^verbatim>\<open>NULL\<close> and the row is not selected.
\<close>

definition in_partition ::
  "int option \<Rightarrow> int \<Rightarrow> event_row \<Rightarrow> pg_error + bool" where
  "in_partition size' member e =
     (case sql_abs (hash_64 (stream_id e)) of
        Inl err \<Rightarrow> Inl err
      | Inr a \<Rightarrow>
          (case size' of
             None \<Rightarrow> Inr False
           | Some n \<Rightarrow> (case sql_MOD a n of Inl err \<Rightarrow> Inl err | Inr p \<Rightarrow> Inr (p = member))))"

text \<open>A \<^verbatim>\<open>WHERE\<close> whose condition can raise: the first exception ends the query.\<close>

fun select_rows :: "('r \<Rightarrow> pg_error + bool) \<Rightarrow> 'r list \<Rightarrow> pg_error + 'r list" where
  "select_rows p [] = Inr []"
| "select_rows p (r # rs) =
     (case p r of
        Inl err \<Rightarrow> Inl err
      | Inr b \<Rightarrow>
          (case select_rows p rs of
             Inl err \<Rightarrow> Inl err
           | Inr rows \<Rightarrow> Inr (if b then r # rows else rows)))"

text \<open>
  The text of the query. \<^verbatim>\<open>_stream_events\<close> puts the text \<^verbatim>\<open>conditions\<close> into the
  query as it is (\<^verbatim>\<open>format(_command, conditions)\<close> with \<^verbatim>\<open>%s\<close>), between \<^verbatim>\<open>AND (\<close>
  and \<^verbatim>\<open>)\<close>, and PostgreSQL reads the result. The model reads the texts that are made of
  comparisons \<^verbatim>\<open>=\<close> between string constants and the column \<^verbatim>\<open>e.stream_type\<close>, each
  alone or in one pair of parentheses, joined by \<^verbatim>\<open>AND\<close> and \<^verbatim>\<open>OR\<close>; \<^verbatim>\<open>AND\<close> binds
  stronger than \<^verbatim>\<open>OR\<close>. Every other text is outside the model (\<open>None\<close>): nothing is
  said about what PostgreSQL does with it.

  The tokens: a string constant starts and ends with a quote (\<open>CHR 0x27\<close>), and two
  quotes inside it stand for one; every other character inside it, a backslash too, stands
  for itself (\<^verbatim>\<open>standard_conforming_strings\<close> is on, the default). A word is made of
  letters, digits, \<open>_\<close>, \<open>.\<close> and \<open>$\<close>, and the words the model knows are
  \<^verbatim>\<open>AND\<close>, \<^verbatim>\<open>OR\<close> and \<^verbatim>\<open>e.stream_type\<close>, written so.
\<close>

datatype token = LPAREN | RPAREN | EQUALS | KW_AND | KW_OR | STRING string | COLUMN_stream_type

datatype lexer = Between | In_string string | Quote_in_string string | In_word string

definition word_char :: "char \<Rightarrow> bool" where
  "word_char c \<longleftrightarrow>
     c \<in> set ''abcdefghijklmnopqrstuvwxyzABCDEFGHIJKLMNOPQRSTUVWXYZ0123456789_.$''"

definition word_token :: "string \<Rightarrow> token option" where
  "word_token w =
     (if w = ''AND'' then Some KW_AND
      else if w = ''OR'' then Some KW_OR
      else if w = ''e.stream_type'' then Some COLUMN_stream_type
      else None)"

text \<open>A character that follows a complete token: the next state and the tokens it adds.\<close>

definition between :: "char \<Rightarrow> (lexer \<times> token list) option" where
  "between c =
     (if c = CHR '' '' \<or> c = CHR 0x0A \<or> c = CHR 0x09 \<or> c = CHR 0x0D then Some (Between, [])
      else if c = CHR ''('' then Some (Between, [LPAREN])
      else if c = CHR '')'' then Some (Between, [RPAREN])
      else if c = CHR ''='' then Some (Between, [EQUALS])
      else if c = CHR 0x27 then Some (In_string [], [])
      else if word_char c then Some (In_word [c], [])
      else None)"

fun lex_step :: "(lexer \<times> token list) option \<Rightarrow> char \<Rightarrow> (lexer \<times> token list) option" where
  "lex_step None c = None"
| "lex_step (Some (Between, ts)) c =
     (case between c of None \<Rightarrow> None | Some (l, new) \<Rightarrow> Some (l, ts @ new))"
| "lex_step (Some (In_string s, ts)) c =
     (if c = CHR 0x27 then Some (Quote_in_string s, ts) else Some (In_string (s @ [c]), ts))"
| "lex_step (Some (Quote_in_string s, ts)) c =
     (if c = CHR 0x27 then Some (In_string (s @ [c]), ts)
      else (case between c of
              None \<Rightarrow> None
            | Some (l, new) \<Rightarrow> Some (l, ts @ [STRING s] @ new)))"
| "lex_step (Some (In_word w, ts)) c =
     (if word_char c then Some (In_word (w @ [c]), ts)
      else (case word_token w of
              None \<Rightarrow> None
            | Some t \<Rightarrow>
                (case between c of
                   None \<Rightarrow> None
                 | Some (l, new) \<Rightarrow> Some (l, ts @ [t] @ new))))"

text \<open>
  The end of the conditions text, where \<^verbatim>\<open>)\<close> follows in the query: a string constant that
  is still open would take it in, and the text is outside the model.
\<close>

fun lex_end :: "(lexer \<times> token list) option \<Rightarrow> token list option" where
  "lex_end None = None"
| "lex_end (Some (Between, ts)) = Some ts"
| "lex_end (Some (In_string s, ts)) = None"
| "lex_end (Some (Quote_in_string s, ts)) = Some (ts @ [STRING s])"
| "lex_end (Some (In_word w, ts)) =
     (case word_token w of None \<Rightarrow> None | Some t \<Rightarrow> Some (ts @ [t]))"

definition tokens :: "string \<Rightarrow> token list option" where
  "tokens text = lex_end (foldl lex_step (Some (Between, [])) text)"

text \<open>
  A comparison between two values, each a string constant or the column
  \<^verbatim>\<open>e.stream_type\<close>; a conjunction of comparisons; and the conditions as PostgreSQL reads
  them in their place: after \<^verbatim>\<open>... = $3 AND\<close>, the text \<^verbatim>\<open>(conditions)\<close> is a conjunction,
  which joins the two conditions before it, and the alternatives that follow it with
  \<^verbatim>\<open>OR\<close>, each a conjunction.
\<close>

datatype sql_value = Constant string | Column_stream_type

datatype comparison = Equals sql_value sql_value

type_synonym conditions = "comparison list \<times> comparison list list"

fun split_on :: "'a \<Rightarrow> 'a list \<Rightarrow> 'a list list" where
  "split_on x [] = [[]]"
| "split_on x (y # ys) =
     (case split_on x ys of
        [] \<Rightarrow> [[y]]
      | p # ps \<Rightarrow> if y = x then [] # p # ps else (y # p) # ps)"

fun operand :: "token \<Rightarrow> sql_value option" where
  "operand (STRING s) = Some (Constant s)"
| "operand COLUMN_stream_type = Some Column_stream_type"
| "operand _ = None"

definition compare_tokens :: "token \<Rightarrow> token \<Rightarrow> comparison option" where
  "compare_tokens a b =
     (case operand a of
        None \<Rightarrow> None
      | Some x \<Rightarrow> (case operand b of None \<Rightarrow> None | Some y \<Rightarrow> Some (Equals x y)))"

definition read_comparison :: "token list \<Rightarrow> comparison option" where
  "read_comparison ts =
     (if length ts = 3 \<and> ts ! 1 = EQUALS then compare_tokens (ts ! 0) (ts ! 2)
      else if length ts = 5 \<and> ts ! 0 = LPAREN \<and> ts ! 2 = EQUALS \<and> ts ! 4 = RPAREN
      then compare_tokens (ts ! 1) (ts ! 3)
      else None)"

definition read_conjunction :: "token list \<Rightarrow> comparison list option" where
  "read_conjunction ts = those (map read_comparison (split_on KW_AND ts))"

definition read_conditions :: "string \<Rightarrow> conditions option" where
  "read_conditions text =
     (case tokens text of
        None \<Rightarrow> None
      | Some ts \<Rightarrow>
          (case those (map read_conjunction (split_on KW_OR ([LPAREN] @ ts @ [RPAREN]))) of
             Some (d # ds) \<Rightarrow> Some (d, ds)
           | _ \<Rightarrow> None))"

text \<open>The value of a comparison on a row.\<close>

fun sql_value_of :: "event_row \<Rightarrow> sql_value \<Rightarrow> string" where
  "sql_value_of e (Constant s) = s"
| "sql_value_of e Column_stream_type = stream_type e"

fun holds :: "event_row \<Rightarrow> comparison \<Rightarrow> bool" where
  "holds e (Equals a b) \<longleftrightarrow> sql_value_of e a = sql_value_of e b"

text \<open>
  The \<^verbatim>\<open>WHERE\<close> clause on a row, given the value \<open>p\<close> of the partition condition
  \<^verbatim>\<open>MOD(@hash_64(e.stream_id), $2) = $3\<close>: without conditions it is
  \<^verbatim>\<open>e.global_sequence_number > $1 AND p\<close>; with conditions, their first conjunction joins
  these two, and every alternative stands alone.
\<close>

definition selects :: "int \<Rightarrow> conditions option \<Rightarrow> event_row \<Rightarrow> bool \<Rightarrow> bool" where
  "selects from_sequence_number conditions e p =
     (case conditions of
        None \<Rightarrow> global_sequence_number e > from_sequence_number \<and> p
      | Some (d, ds) \<Rightarrow>
          (global_sequence_number e > from_sequence_number \<and> p \<and> list_all (holds e) d) \<or>
          list_ex (list_all (holds e)) ds)"

text \<open>
  The conditions that cannot raise are evaluated first, and the partition condition, which
  can, only on a row whose selection depends on it.
\<close>

definition where_row ::
  "int option \<Rightarrow> int \<Rightarrow> int \<Rightarrow> conditions option \<Rightarrow> event_row \<Rightarrow> pg_error + bool" where
  "where_row size' member from_sequence_number conditions e =
     (if selects from_sequence_number conditions e True =
         selects from_sequence_number conditions e False
      then Inr (selects from_sequence_number conditions e True)
      else (case in_partition size' member e of
              Inl err \<Rightarrow> Inl err
            | Inr p \<Rightarrow> Inr (selects from_sequence_number conditions e p)))"

text \<open>
  \<^verbatim>\<open>_stream_events\<close>, called \<open>stream_events\<close> here. \<open>lease_of\<close> is the row its
  first \<^verbatim>\<open>SELECT\<close> finds for the lease id, the primary key of the table; \<open>renewed\<close> is
  its \<^verbatim>\<open>UPDATE\<close>.
  \<open>conditions\<close> is the optional text \<^verbatim>\<open>conditions\<close> as PostgreSQL reads it in the
  query \<^verbatim>\<open>WHERE e.global_sequence_number > $1 AND MOD(@hash_64(e.stream_id), $2) = $3 AND
  (conditions)\<close>; \<open>where_row\<close> is the \<^verbatim>\<open>WHERE\<close> clause on one row. An exception undoes
  the \<^verbatim>\<open>UPDATE\<close>: the function returns the database only with the rows.
\<close>

text \<open>
  The \<^verbatim>\<open>UPDATE consumer_group_leases SET last_action_at = NOW(), expires_at = NOW() +
  INTERVAL '1' HOUR WHERE lease_id = consumer_group_lease_id\<close>, on one row of the table.
\<close>

definition renewed :: "timestamp \<Rightarrow> uuid \<Rightarrow> consumer_group_lease \<Rightarrow> consumer_group_lease" where
  "renewed now consumer_group_lease_id cgl =
     (if lease_id cgl = consumer_group_lease_id
      then cgl\<lparr>last_action_at := now, expires_at := now + INTERVAL_1_HOUR\<rparr>
      else cgl)"

definition lease_of :: "database \<Rightarrow> uuid \<Rightarrow> consumer_group_lease option" where
  "lease_of db consumer_group_lease_id =
     find (\<lambda>cgl. lease_id cgl = consumer_group_lease_id) (consumer_group_leases db)"

definition stream_events ::
  "timestamp \<Rightarrow> database \<Rightarrow> int \<Rightarrow> int \<Rightarrow> uuid \<Rightarrow> conditions option
     \<Rightarrow> pg_error + (event_row list \<times> database)" where
  "stream_events now db from_sequence_number batch_size consumer_group_lease_id conditions =
     (case lease_of db consumer_group_lease_id of
        None \<Rightarrow> Inl ErrLeaseNotFound
      | Some cgl \<Rightarrow>
          (let lease_expiry = expires_at cgl;
               consumer_group_member = member_index cgl;
               consumer_group_size = map_of (consumer_groups db) (consumer_group_name cgl)
           in if lease_expiry < now then Inl ErrLeaseExpired
              else
                (let db' = db\<lparr>consumer_group_leases :=
                             map (renewed now consumer_group_lease_id)
                               (consumer_group_leases db)\<rparr>
                 in case select_rows
                           (where_row consumer_group_size consumer_group_member
                              from_sequence_number conditions)
                           (events db') of
                      Inl err \<Rightarrow> Inl err
                    | Inr rows \<Rightarrow>
                        (let ordered = sort_key global_sequence_number rows
                         in Inr (if batch_size > 0 then take (nat batch_size) ordered else ordered,
                                 db')))))"

text \<open>
  \<^verbatim>\<open>stream_by_type\<close> passes the text \<^verbatim>\<open>format('e.stream_type = ''%s''', _stream_type)\<close>:
  the type name as it is, between two quotes. The result is \<open>None\<close> when the text of
  the query is outside the model. \<^verbatim>\<open>stream_all\<close> passes no conditions.
\<close>

definition stream_type_conditions :: "string \<Rightarrow> string" where
  "stream_type_conditions typ = ''e.stream_type = '' @ [CHR 0x27] @ typ @ [CHR 0x27]"

definition stream_by_type ::
  "timestamp \<Rightarrow> database \<Rightarrow> string \<Rightarrow> int \<Rightarrow> int \<Rightarrow> uuid
     \<Rightarrow> (pg_error + (event_row list \<times> database)) option" where
  "stream_by_type now db typ from_sequence_number batch_size consumer_group_lease_id =
     (case read_conditions (stream_type_conditions typ) of
        None \<Rightarrow> None
      | Some conditions \<Rightarrow>
          Some (stream_events now db from_sequence_number batch_size consumer_group_lease_id
                  (Some conditions)))"

definition stream_all ::
  "timestamp \<Rightarrow> database \<Rightarrow> int \<Rightarrow> int \<Rightarrow> uuid
     \<Rightarrow> pg_error + (event_row list \<times> database)" where
  "stream_all now db from_sequence_number batch_size consumer_group_lease_id =
     stream_events now db from_sequence_number batch_size consumer_group_lease_id None"

section \<open>Checkpointer\<close>

text \<open>
  Modelled from the spec: \<^verbatim>\<open>postgres.Checkpointer\<close>, of which the sources hold only the
  test. The spec (4.5): \<^verbatim>\<open>Read\<close> returns the sequence number stored for the
  subscription, 0 if absent; \<^verbatim>\<open>Write\<close> is an upsert, the last write wins; the only
  failures are those of the connection. The table \<^verbatim>\<open>subscriptions_checkpoints\<close> maps a
  subscription name, its primary key, to the sequence number.
\<close>

type_synonym subscriptions_checkpoints = "string \<rightharpoonup> int"

definition Read :: "pg_error option \<Rightarrow> subscriptions_checkpoints \<Rightarrow> string \<Rightarrow> go_error + int" where
  "Read query_err tbl subscriptionName =
     (case query_err of
        Some err \<Rightarrow> Inl (DriverError err)
      | None \<Rightarrow> Inr (case tbl subscriptionName of None \<Rightarrow> 0 | Some sequenceNumber \<Rightarrow> sequenceNumber))"

definition Write ::
  "pg_error option \<Rightarrow> subscriptions_checkpoints \<Rightarrow> string \<Rightarrow> int
     \<Rightarrow> subscriptions_checkpoints \<times> go_error option" where
  "Write exec_err tbl subscriptionName sequenceNumber =
     (case exec_err of
        Some err \<Rightarrow> (tbl, Some (DriverError err))
      | None \<Rightarrow> (tbl(subscriptionName \<mapsto> sequenceNumber), None))"

section \<open>Auxiliary definitions for the statements\<close>

text \<open>An event whose payload and metadata \<^verbatim>\<open>json.Marshal\<close> accepts.\<close>

definition marshals :: "Event \<Rightarrow> bool" where
  "marshals event = (Payload_json event \<noteq> None \<and> Metadata event \<noteq> Some None)"

text \<open>
  The scenario of the spec (8): the stream ("order", "42"), a driver without failures, an
  empty store, and the store after two events were appended to the stream.
\<close>

definition order_42 :: StreamID where
  "order_42 = \<lparr>Type = ''order'', Name = ''42''\<rparr>"

definition created :: Event where
  "created = \<lparr>Payload_Name = ''created'', Payload_json = Some ''1'', Metadata = None\<rparr>"

definition healthy :: driver where
  "healthy = \<lparr>BeginTx = None, Commit = None, Rollback = None\<rparr>"

definition empty_store :: database where
  "empty_store = \<lparr>events = [], events_global_sequence_number_seq = 1,
                   consumer_groups = [], consumer_group_leases = []\<rparr>"

definition order_42_row :: "int \<Rightarrow> int \<Rightarrow> event_row" where
  "order_42_row n v = \<lparr>global_sequence_number = n, stream_type = ''order'', stream_id = ''42'',
      version = v, event_type = ''created'', event_payload = ''1'', event_metadata = ''{}''\<rparr>"

definition store_order_42 :: database where
  "store_order_42 = \<lparr>events = [order_42_row 1 1, order_42_row 2 2],
      events_global_sequence_number_seq = 3,
      consumer_groups = [], consumer_group_leases = []\<rparr>"

text \<open>
  The invariant of the leases (spec, 3): among the leases that are unexpired at \<open>now\<close>
  (\<^verbatim>\<open>expires_at > NOW()\<close>, as \<^verbatim>\<open>announce_consumer_group_member\<close> counts them), no two
  have the same group and member index.
\<close>

definition lease_exclusive :: "timestamp \<Rightarrow> database \<Rightarrow> bool" where
  "lease_exclusive now db =
     distinct (map (\<lambda>cgl. (consumer_group_name cgl, member_index cgl))
                (filter (\<lambda>cgl. expires_at cgl > now) (consumer_group_leases db)))"

text \<open>
  The member indices held by the unexpired leases of a group, and, in the words of the
  spec (4.3), "the lowest free index": the smallest index from 0 on that none of them
  holds. Among the indices \<open>0, ..., length taken\<close> one is free.
\<close>

definition taken_indices :: "timestamp \<Rightarrow> database \<Rightarrow> string \<Rightarrow> int list" where
  "taken_indices now db name =
     map member_index
       (filter (\<lambda>cgl. consumer_group_name cgl = name \<and> expires_at cgl > now)
          (consumer_group_leases db))"

fun first_free :: "int list \<Rightarrow> int \<Rightarrow> nat \<Rightarrow> int" where
  "first_free taken i 0 = i"
| "first_free taken i (Suc fuel) =
     (if i \<in> set taken then first_free taken (i + 1) fuel else i)"

definition lowest_free_index :: "timestamp \<Rightarrow> database \<Rightarrow> string \<Rightarrow> int" where
  "lowest_free_index now db name =
     first_free (taken_indices now db name) 0 (length (taken_indices now db name))"

text \<open>
  The partition function in the words of the spec (4.2): the first 64 bits of the digest as
  an unsigned integer, modulo the group size.
\<close>

definition partition_unsigned :: "string \<Rightarrow> int \<Rightarrow> int" where
  "partition_unsigned v n = uint (drop_bit 64 (md5 v)) mod n"

text \<open>
  A group "g" of size 2 and three leases: \<open>lease_A\<close> and \<open>lease_B\<close> as two calls of
  \<^verbatim>\<open>announce_consumer_group_member\<close> at time 0 create them, \<open>lease_B'\<close> as a stream
  call after 30 minutes renews \<open>lease_B\<close>, and \<open>lease_C\<close> as a third announcement
  creates it when \<open>lease_A\<close> has expired.
\<close>

definition group_g :: database where
  "group_g = \<lparr>events = [], events_global_sequence_number_seq = 1,
               consumer_groups = [(''g'', 2)], consumer_group_leases = []\<rparr>"

definition lease_A :: consumer_group_lease where
  "lease_A = \<lparr>lease_id = 1, consumer_group_name = ''g'', member_index = 0, leased_at = 0,
               expires_at = 3600000000, last_action_at = 0\<rparr>"

definition lease_B :: consumer_group_lease where
  "lease_B = \<lparr>lease_id = 2, consumer_group_name = ''g'', member_index = 1, leased_at = 0,
               expires_at = 3600000000, last_action_at = 0\<rparr>"

definition lease_B' :: consumer_group_lease where
  "lease_B' = \<lparr>lease_id = 2, consumer_group_name = ''g'', member_index = 1, leased_at = 0,
                expires_at = 5400000000, last_action_at = 1800000000\<rparr>"

definition lease_C :: consumer_group_lease where
  "lease_C = \<lparr>lease_id = 3, consumer_group_name = ''g'', member_index = 1,
               leased_at = 4000000000, expires_at = 7600000000,
               last_action_at = 4000000000\<rparr>"

text \<open>
  A store with three events, two of the stream ("order", "42") and one of the stream
  ("order", "b"), the group "g" and the two leases of its members.
\<close>

definition order_b_row :: "int \<Rightarrow> int \<Rightarrow> event_row" where
  "order_b_row n v = \<lparr>global_sequence_number = n, stream_type = ''order'', stream_id = ''b'',
      version = v, event_type = ''created'', event_payload = ''1'', event_metadata = ''{}''\<rparr>"

definition store_g :: database where
  "store_g = \<lparr>events = [order_42_row 1 1, order_b_row 2 1, order_42_row 3 2],
               events_global_sequence_number_seq = 4,
               consumer_groups = [(''g'', 2)], consumer_group_leases = [lease_A, lease_B]\<rparr>"

text \<open>The group "g" with \<open>lease_A\<close> and the renewed \<open>lease_B'\<close>.\<close>

definition two_leases :: database where
  "two_leases = group_g\<lparr>consumer_group_leases := [lease_A, lease_B']\<rparr>"

text \<open>
  A type name with quotes: \<^verbatim>\<open>x') OR ('a'='a\<close>. With it the text of the query ends with
  \<^verbatim>\<open>AND (e.stream_type = 'x') OR ('a'='a')\<close>.
\<close>

definition quoted_type :: string where
  "quoted_type =
     ''x'' @ [CHR 0x27] @ '') OR ('' @ [CHR 0x27] @ ''a'' @ [CHR 0x27] @ ''='' @ [CHR 0x27] @ ''a''"

text \<open>An event whose payload \<^verbatim>\<open>json.Marshal\<close> refuses.\<close>

definition unmarshalable :: Event where
  "unmarshalable = \<lparr>Payload_Name = ''created'', Payload_json = None, Metadata = None\<rparr>"

text \<open>
  A type name that calls a function:
  \<^verbatim>\<open>x') OR EXISTS (SELECT 1 FROM stream_all(0, 0, '00000000-0000-0000-0000-000000000001')) OR ('a'='b\<close>.
\<close>

definition calling_type :: string where
  "calling_type =
     ''x'' @ [CHR 0x27] @ '') OR EXISTS (SELECT 1 FROM stream_all(0, 0, '' @ [CHR 0x27] @
     ''00000000-0000-0000-0000-000000000001'' @ [CHR 0x27] @ '')) OR ('' @ [CHR 0x27] @ ''a'' @
     [CHR 0x27] @ ''='' @ [CHR 0x27] @ ''b''"
section \<open>Append: results\<close>

subsection \<open>The errors of Append\<close>

lemma appendEvent_not_conflict: "appendEvent sp tx id' expected event \<noteq> Inl ErrConflict"
  by (simp add: appendEvent_def split: option.splits sum.splits prod.splits)

lemma appendEvents_not_conflict:
  "snd (appendEvents sp tx id' expected v events') \<noteq> Inl ErrConflict"
proof (induction events' arbitrary: tx expected v)
  case Nil
  show ?case by simp
next
  case (Cons event events')
  show ?case
  proof (cases "appendEvent sp tx id' expected event")
    case (Inl err)
    with appendEvent_not_conflict [of sp tx id' expected event] show ?thesis by simp
  next
    case (Inr r)
    then show ?thesis using Cons.IH by (cases r) simp
  qed
qed

subsection \<open>The loop over a batch\<close>

text \<open>
  The loop over \<open>es @ rest\<close> is the loop over \<open>es\<close> followed by the loop over
  \<open>rest\<close>, which starts with the version the last event of \<open>es\<close> was given as its
  expected version.
\<close>

lemma appendEvents_append:
  "appendEvents sp tx id' expected v (es @ rest) =
     (case appendEvents sp tx id' expected v es of
        (tx', Inl err) \<Rightarrow> (tx', Inl err)
      | (tx', Inr v') \<Rightarrow> appendEvents sp tx' id' (if es = [] then expected else v') v' rest)"
proof (induction es arbitrary: tx expected v)
  case Nil
  show ?case by simp
next
  case (Cons e es)
  show ?case
  proof (cases "appendEvent sp tx id' expected e")
    case (Inl err)
    then show ?thesis by simp
  next
    case (Inr r)
    obtain v1 tx1 where r: "r = (v1, tx1)" by (cases r)
    show ?thesis
    proof (cases es)
      case Nil
      with Inr r show ?thesis by simp
    next
      case (Cons e2 es2)
      with Inr r Cons.IH [of tx1 v1 v1] show ?thesis
        by (auto split: prod.splits sum.splits)
    qed
  qed
qed

lemma appendEvents_prefix_fails:
  assumes "snd (appendEvents sp tx id' expected v (take k events')) = Inl e"
  shows "\<exists>err. snd (appendEvents sp tx id' expected v events') = Inl err"
proof -
  have "appendEvents sp tx id' expected v (take k events' @ drop k events') =
     (case appendEvents sp tx id' expected v (take k events') of
        (tx', Inl err) \<Rightarrow> (tx', Inl err)
      | (tx', Inr v') \<Rightarrow>
          appendEvents sp tx' id' (if take k events' = [] then expected else v') v' (drop k events'))"
    by (rule appendEvents_append)
  with assms show ?thesis
    by (cases "appendEvents sp tx id' expected v (take k events')") auto
qed

lemma Append_Inl_rolled_back:
  assumes "snd (Append sp drv db id' expected events') = Inl err"
  shows "fst (Append sp drv db id' expected events') =
           rolled_back db (fst (Append sp drv db id' expected events'))"
  using assms
  by (auto simp: Append_def rolled_back_def split: option.splits sum.splits prod.splits)

lemma Append_Inr_committed:
  assumes "snd (Append sp drv db id' expected events') = Inr v"
  shows "appendEvents sp db id' expected 0 events' =
           (fst (Append sp drv db id' expected events'), Inr v)"
  using assms
  by (auto simp: Append_def split: option.splits sum.splits prod.splits)

lemma Append_loop_fails:
  assumes "snd (appendEvents sp db id' expected 0 events') = Inl e"
  shows "\<exists>err. snd (Append sp drv db id' expected events') = Inl err"
  using assms
  by (auto simp: Append_def split: option.splits sum.splits prod.splits)

lemma events_rolled_back: "events (rolled_back db tx) = events db"
  by (simp add: rolled_back_def)

subsection \<open>The calls of the stored procedure\<close>

text \<open>
  \<^verbatim>\<open>appendEvent\<close> succeeds exactly when payload and metadata marshal and the stored
  procedure returns a version.
\<close>

lemma appendEvent_Inr:
  "appendEvent sp tx id' x event = Inr (w, tx') \<longleftrightarrow>
     (\<exists>payload metadata. Payload_json event = Some payload \<and>
        (case Metadata event of None \<Rightarrow> Some ''{}'' | Some m \<Rightarrow> m) = Some metadata \<and>
        sp tx (Type id') (Name id') x (Payload_Name event) payload metadata = Inr (w, tx'))"
  by (auto simp: appendEvent_def split: option.splits sum.splits)

text \<open>
  A loop that succeeds has gone through the transaction states \<open>txs 0\<close>, \<open>txs 1\<close>, ...:
  the event \<open>i\<close> was appended in \<open>txs i\<close>, giving the version \<open>vs i\<close> and the state
  \<open>txs (i + 1)\<close>.
\<close>

lemma appendEvents_chain:
  assumes "appendEvents sp tx id' expected v es = (tx', Inr w)"
  shows "\<exists>txs vs. txs 0 = tx \<and> txs (length es) = tx' \<and>
           (\<forall>i < length es.
              appendEvent sp (txs i) id' (if i = 0 then expected else vs (i - 1)) (es ! i) =
                Inr (vs i, txs (Suc i))) \<and>
           w = (if es = [] then v else vs (length es - 1))"
  using assms
proof (induction es arbitrary: tx expected v)
  case Nil
  then show ?case by (intro exI [of _ "\<lambda>_. tx"]) simp
next
  case (Cons e es)
  from Cons.prems obtain v1 tx1 where one: "appendEvent sp tx id' expected e = Inr (v1, tx1)"
    and rest: "appendEvents sp tx1 id' v1 v1 es = (tx', Inr w)"
    by (cases "appendEvent sp tx id' expected e") (auto split: prod.splits)
  from Cons.IH [OF rest] obtain txs vs where t0: "txs 0 = tx1" and tn: "txs (length es) = tx'"
    and steps: "\<forall>i < length es.
              appendEvent sp (txs i) id' (if i = 0 then v1 else vs (i - 1)) (es ! i) =
                Inr (vs i, txs (Suc i))"
    and w: "w = (if es = [] then v1 else vs (length es - 1))"
    by blast
  let ?txs = "\<lambda>i. case i of 0 \<Rightarrow> tx | Suc j \<Rightarrow> txs j"
  let ?vs = "\<lambda>i. case i of 0 \<Rightarrow> v1 | Suc j \<Rightarrow> vs j"
  have "\<forall>i < length (e # es).
              appendEvent sp (?txs i) id' (if i = 0 then expected else ?vs (i - 1)) ((e # es) ! i) =
                Inr (?vs i, ?txs (Suc i))"
  proof (intro allI impI)
    fix i assume i: "i < length (e # es)"
    show "appendEvent sp (?txs i) id' (if i = 0 then expected else ?vs (i - 1)) ((e # es) ! i) =
                Inr (?vs i, ?txs (Suc i))"
    proof (cases i)
      case 0
      with one t0 show ?thesis by simp
    next
      case (Suc j)
      with i steps have "appendEvent sp (txs j) id' (if j = 0 then v1 else vs (j - 1)) (es ! j) =
                Inr (vs j, txs (Suc j))"
        by simp
      with Suc show ?thesis by (cases j) simp_all
    qed
  qed
  moreover have "?txs 0 = tx" "?txs (length (e # es)) = tx'" using tn by simp_all
  moreover have "w = (if e # es = [] then v else ?vs (length (e # es) - 1))"
    using w by (cases es) simp_all
  ultimately show ?case by blast
qed

text \<open>
  And a loop that goes through \<open>k\<close> such states and cannot append the event \<open>k\<close>
  returns an error.
\<close>

lemma appendEvents_fails_at:
  assumes "k < length es" and "txs 0 = tx"
    and "\<forall>i < k. appendEvent sp (txs i) id' (if i = 0 then expected else vs (i - 1)) (es ! i) =
                Inr (vs i, txs (Suc i))"
    and "\<forall>w tx'. appendEvent sp (txs k) id' (if k = 0 then expected else vs (k - 1)) (es ! k) \<noteq>
                Inr (w, tx')"
  shows "\<exists>err. appendEvents sp tx id' expected v es = (txs k, Inl err)"
  using assms
proof (induction es arbitrary: tx expected v txs vs k)
  case Nil
  then show ?case by simp
next
  case (Cons e es)
  show ?case
  proof (cases k)
    case 0
    with Cons.prems have "\<forall>w tx'. appendEvent sp tx id' expected e \<noteq> Inr (w, tx')" by simp
    then obtain err where "appendEvent sp tx id' expected e = Inl err"
      by (cases "appendEvent sp tx id' expected e") auto
    with 0 Cons.prems(2) show ?thesis by simp
  next
    case (Suc j)
    with Cons.prems(3) have "appendEvent sp (txs 0) id' expected e = Inr (vs 0, txs (Suc 0))"
      by auto
    with Cons.prems(2) have one: "appendEvent sp tx id' expected e = Inr (vs 0, txs 1)" by simp
    have j: "j < length es" using Cons.prems(1) Suc by simp
    have steps: "\<forall>i < j. appendEvent sp (txs (Suc i)) id'
                   (if i = 0 then vs 0 else vs (Suc (i - 1))) (es ! i) =
                Inr (vs (Suc i), txs (Suc (Suc i)))"
    proof (intro allI impI)
      fix i assume "i < j"
      with Suc Cons.prems(3) have "appendEvent sp (txs (Suc i)) id'
          (if Suc i = 0 then expected else vs (Suc i - 1)) ((e # es) ! Suc i) =
                Inr (vs (Suc i), txs (Suc (Suc i)))"
        by blast
      then show "appendEvent sp (txs (Suc i)) id'
                   (if i = 0 then vs 0 else vs (Suc (i - 1))) (es ! i) =
                Inr (vs (Suc i), txs (Suc (Suc i)))"
        by (cases i) simp_all
    qed
    have last: "\<forall>w tx'. appendEvent sp (txs (Suc j)) id'
                   (if j = 0 then vs 0 else vs (Suc (j - 1))) (es ! j) \<noteq> Inr (w, tx')"
      using Cons.prems(4) Suc by (cases j) simp_all
    from Cons.IH [of j "\<lambda>i. txs (Suc i)" "txs 1" "vs 0" "\<lambda>i. vs (Suc i)" "vs 0", OF j _ steps last]
    obtain err where "appendEvents sp (txs 1) id' (vs 0) (vs 0) es = (txs (Suc j), Inl err)"
      by auto
    with one Suc show ?thesis by simp
  qed
qed

lemma Append_Inr_driver:
  assumes "snd (Append sp drv db id' expected events') = Inr v"
  shows "BeginTx drv = None \<and> Commit drv = None"
  using assms
  by (auto simp: Append_def split: option.splits sum.splits prod.splits)

lemma Append_Inl:
  assumes "snd (Append sp drv db id' expected events') = Inl err"
  shows "\<exists>n. fst (Append sp drv db id' expected events') =
               db\<lparr>events_global_sequence_number_seq := n\<rparr>"
proof -
  from Append_Inl_rolled_back [OF assms]
  have "fst (Append sp drv db id' expected events') =
          db\<lparr>events_global_sequence_number_seq :=
                events_global_sequence_number_seq (fst (Append sp drv db id' expected events'))\<rparr>"
    by (simp add: rolled_back_def)
  then show ?thesis ..
qed

subsection \<open>The stored procedure of the spec\<close>

lemma scenario_append:
  "Append (append_to_store (- 1)) healthy empty_store order_42 0 [created, created] =
     (store_order_42, Inr 2)"
  by (simp add: Append_def appendEvent_def append_to_store_def stream_version_def healthy_def
      empty_store_def order_42_def created_def store_order_42_def order_42_row_def)

lemma scenario_stale:
  "Append (append_to_store (- 1)) healthy store_order_42 order_42 0 [created] =
     (store_order_42, Inl (FailedToAppendEvent (raise_exception ''stream version check failed'')))"
  by (simp add: Append_def appendEvent_def append_to_store_def stream_version_def healthy_def
      rolled_back_def deferred_def order_42_def created_def store_order_42_def order_42_row_def)

lemma scenario_partial:
  "appendEvents (append_to_store (- 1)) empty_store order_42 0 0 [created, unmarshalable] =
     (empty_store\<lparr>events := [order_42_row 1 1], events_global_sequence_number_seq := 2\<rparr>,
      Inl FailedToMarshalPayload)"
  "Append (append_to_store (- 1)) healthy empty_store order_42 0 [created, unmarshalable] =
     (empty_store\<lparr>events_global_sequence_number_seq := 2\<rparr>, Inl FailedToMarshalPayload)"
  by (simp_all add: Append_def appendEvent_def append_to_store_def stream_version_def healthy_def
      rolled_back_def deferred_def empty_store_def order_42_def created_def unmarshalable_def
      order_42_row_def)

lemma scenario_first:
  "append_to_store (- 1) empty_store (Type order_42) (Name order_42) 0 (Payload_Name created)
      ''1'' ''{}'' =
     Inr (1, empty_store\<lparr>events := [order_42_row 1 1], events_global_sequence_number_seq := 2\<rparr>)"
  by (simp add: append_to_store_def stream_version_def empty_store_def order_42_def created_def
      order_42_row_def)

lemma stream_version_snoc:
  "stream_version (db\<lparr>events := events db @ [row], events_global_sequence_number_seq := n\<rparr>) typ name =
     (if stream_type row = typ \<and> stream_id row = name then version row
      else stream_version db typ name)"
  by (simp add: stream_version_def)

lemma appendEvent_append_to_store:
  assumes "marshals event"
    and "expected = any \<or> expected = stream_version tx (Type id') (Name id')"
  shows "\<exists>tx'. appendEvent (append_to_store any) tx id' expected event =
                  Inr (stream_version tx (Type id') (Name id') + 1, tx') \<and>
               stream_version tx' (Type id') (Name id') =
                 stream_version tx (Type id') (Name id') + 1 \<and>
               (\<exists>row. events tx' = events tx @ [row] \<and>
                  version row = stream_version tx (Type id') (Name id') + 1 \<and>
                  stream_type row = Type id' \<and> stream_id row = Name id' \<and>
                  global_sequence_number row = events_global_sequence_number_seq tx) \<and>
               events_global_sequence_number_seq tx' = events_global_sequence_number_seq tx + 1"
  using assms
  by (auto simp: marshals_def appendEvent_def append_to_store_def Let_def stream_version_snoc
      split: option.splits)

lemma appendEvents_append_to_store:
  assumes "\<forall>event \<in> set es. marshals event"
    and "expected = any \<or> expected = stream_version tx (Type id') (Name id')"
    and "es \<noteq> []"
  shows "\<exists>tx'. appendEvents (append_to_store any) tx id' expected v es =
                  (tx', Inr (stream_version tx (Type id') (Name id') + int (length es))) \<and>
               stream_version tx' (Type id') (Name id') =
                 stream_version tx (Type id') (Name id') + int (length es)"
  using assms
proof (induction es arbitrary: tx expected v)
  case Nil
  then show ?case by simp
next
  case (Cons e es)
  let ?c = "stream_version tx (Type id') (Name id')"
  from Cons.prems have "marshals e" by simp
  from appendEvent_append_to_store [OF this Cons.prems(2)]
  obtain tx1 where one: "appendEvent (append_to_store any) tx id' expected e = Inr (?c + 1, tx1)"
    and ver: "stream_version tx1 (Type id') (Name id') = ?c + 1"
    by blast
  show ?case
  proof (cases es)
    case Nil
    with one ver show ?thesis by simp
  next
    case (Cons e2 es2)
    then have ne: "es \<noteq> []" by simp
    from Cons.prems have "\<forall>event \<in> set es. marshals event" by simp
    from Cons.IH [OF this _ ne, of "?c + 1" tx1 "?c + 1"] ver
    obtain tx2 where "appendEvents (append_to_store any) tx1 id' (?c + 1) (?c + 1) es =
        (tx2, Inr (?c + 1 + int (length es)))"
      and "stream_version tx2 (Type id') (Name id') = ?c + 1 + int (length es)"
      by auto
    with one show ?thesis by (simp add: algebra_simps)
  qed
qed

lemma appendEvent_append_to_store_stale:
  assumes "marshals event"
    and "expected \<noteq> any" and "expected \<noteq> stream_version tx (Type id') (Name id')"
  shows "appendEvent (append_to_store any) tx id' expected event =
           Inl (FailedToAppendEvent (raise_exception ''stream version check failed''))"
  using assms
  by (auto simp: marshals_def appendEvent_def append_to_store_def Let_def split: option.splits)

lemma Append_append_to_store:
  assumes "BeginTx drv = None" and "Commit drv = None" and "Rollback drv = None"
    and "\<forall>event \<in> set events'. marshals event" and "events' \<noteq> []"
  shows "(expected = any \<or> expected = stream_version db (Type id') (Name id') \<longrightarrow>
           (\<exists>db'. Append (append_to_store any) drv db id' expected events' =
                     (db', Inr (stream_version db' (Type id') (Name id'))) \<and>
                   stream_version db' (Type id') (Name id') =
                     stream_version db (Type id') (Name id') + int (length events'))) \<and>
         (expected \<noteq> any \<and> expected \<noteq> stream_version db (Type id') (Name id') \<longrightarrow>
            Append (append_to_store any) drv db id' expected events' =
              (db, Inl (FailedToAppendEvent (raise_exception ''stream version check failed''))))"
proof (intro conjI impI)
  assume "expected = any \<or> expected = stream_version db (Type id') (Name id')"
  from appendEvents_append_to_store [OF assms(4) this assms(5), of 0]
  show "\<exists>db'. Append (append_to_store any) drv db id' expected events' =
                     (db', Inr (stream_version db' (Type id') (Name id'))) \<and>
                   stream_version db' (Type id') (Name id') =
                     stream_version db (Type id') (Name id') + int (length events')"
    using assms(1,2) by (auto simp: Append_def)
next
  assume stale: "expected \<noteq> any \<and> expected \<noteq> stream_version db (Type id') (Name id')"
  from assms(5) obtain e es where ev: "events' = e # es" by (cases events') auto
  with assms(4) have "marshals e" by simp
  from appendEvent_append_to_store_stale [OF this] stale
  have "appendEvent (append_to_store any) db id' expected e =
           Inl (FailedToAppendEvent (raise_exception ''stream version check failed''))"
    by simp
  with ev assms(1,3)
  show "Append (append_to_store any) drv db id' expected events' =
              (db, Inl (FailedToAppendEvent (raise_exception ''stream version check failed'')))"
    by (simp add: Append_def deferred_def rolled_back_def)
qed

section \<open>The claims about Append\<close>

text \<open>
  C1 (the code does not do this). The claim: an \<^verbatim>\<open>Append\<close> whose expected version is
  stale fails with \<open>ErrConflict\<close> and leaves the stream as it was. Whatever the stored
  procedure does, \<^verbatim>\<open>Append\<close> never returns \<open>ErrConflict\<close>: every error of the
  procedure is wrapped as "failed to append event". With the stored procedure of the spec,
  appending to the stream ("order", "42"), which is at version 2, with expected version 0
  leaves the store unchanged and returns that wrapped error.
\<close>

theorem Append_never_ErrConflict:
  "snd (Append sp drv db id' expected events') \<noteq> Inl ErrConflict \<and>
   Append (append_to_store (- 1)) healthy store_order_42 order_42 0 [created] =
     (store_order_42, Inl (FailedToAppendEvent (raise_exception ''stream version check failed'')))"
proof -
  obtain tx r where loop: "appendEvents sp db id' expected 0 events' = (tx, r)"
    by (cases "appendEvents sp db id' expected 0 events'")
  with appendEvents_not_conflict [of sp db id' expected 0 events']
  have "r \<noteq> Inl ErrConflict" by simp
  with loop have "snd (Append sp drv db id' expected events') \<noteq> Inl ErrConflict"
    by (auto simp: Append_def deferred_def split: option.splits sum.splits)
  then show ?thesis by (simp add: scenario_stale)
qed

text \<open>
  C5. A batch is appended entirely or not at all. (1) When \<^verbatim>\<open>Append\<close> returns an error,
  the database is the one before the call but for the numbers drawn from the sequence; in
  particular the \<^verbatim>\<open>events\<close> table is unchanged, and \<^verbatim>\<open>StreamAll\<close>,
  \<^verbatim>\<open>StreamByType\<close> and \<^verbatim>\<open>Stream\<close> read what they read before. (2) When the
  stored procedure has appended the first \<open>k\<close> events of the batch, taking the
  transaction from \<open>txs 0\<close>, the database before the call, to \<open>txs k\<close>, and the event
  \<open>k\<close> is not appended (its payload or its metadata does not marshal, or the stored
  procedure raises), \<^verbatim>\<open>Append\<close> returns an error: by (1), what the transaction wrote
  is not in the \<^verbatim>\<open>events\<close> table. (3) When \<^verbatim>\<open>Append\<close> succeeds, the transaction
  was opened and committed, every event of the batch marshalled and was appended by the
  stored procedure, each in the state the one before it left, and the database is the one
  the stored procedure returned for the last event.
\<close>

theorem Append_all_or_nothing:
  "(snd (Append sp drv db id' expected events') = Inl err \<longrightarrow>
      (\<exists>n. fst (Append sp drv db id' expected events') =
             db\<lparr>events_global_sequence_number_seq := n\<rparr>) \<and>
      events (fst (Append sp drv db id' expected events')) = events db \<and>
      StreamAll rowsToStream query_err (fst (Append sp drv db id' expected events')) From =
        StreamAll rowsToStream query_err db From \<and>
      StreamByType rowsToStream query_err (fst (Append sp drv db id' expected events')) typ From =
        StreamByType rowsToStream query_err db typ From \<and>
      Stream rowsToStream query_err (fst (Append sp drv db id' expected events')) id'' From =
        Stream rowsToStream query_err db id'' From) \<and>
   (k < length events' \<and> txs 0 = db \<and>
    (\<forall>i < k. \<exists>payload metadata.
       Payload_json (events' ! i) = Some payload \<and>
       (case Metadata (events' ! i) of None \<Rightarrow> Some ''{}'' | Some m \<Rightarrow> m) = Some metadata \<and>
       sp (txs i) (Type id') (Name id') (if i = 0 then expected else vs (i - 1))
          (Payload_Name (events' ! i)) payload metadata = Inr (vs i, txs (Suc i))) \<and>
    \<not> (\<exists>payload metadata w tx'.
       Payload_json (events' ! k) = Some payload \<and>
       (case Metadata (events' ! k) of None \<Rightarrow> Some ''{}'' | Some m \<Rightarrow> m) = Some metadata \<and>
       sp (txs k) (Type id') (Name id') (if k = 0 then expected else vs (k - 1))
          (Payload_Name (events' ! k)) payload metadata = Inr (w, tx')) \<longrightarrow>
      (\<exists>err. snd (Append sp drv db id' expected events') = Inl err) \<and>
      events (fst (Append sp drv db id' expected events')) = events db) \<and>
   (snd (Append sp drv db id' expected events') = Inr v \<longrightarrow>
      BeginTx drv = None \<and> Commit drv = None \<and>
      (\<exists>txs vs. txs 0 = db \<and>
         txs (length events') = fst (Append sp drv db id' expected events') \<and>
         (\<forall>i < length events'. \<exists>payload metadata.
            Payload_json (events' ! i) = Some payload \<and>
            (case Metadata (events' ! i) of None \<Rightarrow> Some ''{}'' | Some m \<Rightarrow> m) = Some metadata \<and>
            sp (txs i) (Type id') (Name id') (if i = 0 then expected else vs (i - 1))
               (Payload_Name (events' ! i)) payload metadata = Inr (vs i, txs (Suc i)))))"
proof (intro conjI impI)
  assume a: "snd (Append sp drv db id' expected events') = Inl err"
  show "\<exists>n. fst (Append sp drv db id' expected events') =
             db\<lparr>events_global_sequence_number_seq := n\<rparr>"
    by (rule Append_Inl [OF a])
  then obtain n where "fst (Append sp drv db id' expected events') =
             db\<lparr>events_global_sequence_number_seq := n\<rparr>" ..
  then show e: "events (fst (Append sp drv db id' expected events')) = events db" by simp
  show "StreamAll rowsToStream query_err (fst (Append sp drv db id' expected events')) From =
        StreamAll rowsToStream query_err db From"
    unfolding StreamAll_def e by (rule refl)
  show "StreamByType rowsToStream query_err (fst (Append sp drv db id' expected events')) typ From =
        StreamByType rowsToStream query_err db typ From"
    unfolding StreamByType_def e by (rule refl)
  show "Stream rowsToStream query_err (fst (Append sp drv db id' expected events')) id'' From =
        Stream rowsToStream query_err db id'' From"
    unfolding Stream_def e by (rule refl)
next
  assume a: "k < length events' \<and> txs 0 = db \<and>
    (\<forall>i < k. \<exists>payload metadata.
       Payload_json (events' ! i) = Some payload \<and>
       (case Metadata (events' ! i) of None \<Rightarrow> Some ''{}'' | Some m \<Rightarrow> m) = Some metadata \<and>
       sp (txs i) (Type id') (Name id') (if i = 0 then expected else vs (i - 1))
          (Payload_Name (events' ! i)) payload metadata = Inr (vs i, txs (Suc i))) \<and>
    \<not> (\<exists>payload metadata w tx'.
       Payload_json (events' ! k) = Some payload \<and>
       (case Metadata (events' ! k) of None \<Rightarrow> Some ''{}'' | Some m \<Rightarrow> m) = Some metadata \<and>
       sp (txs k) (Type id') (Name id') (if k = 0 then expected else vs (k - 1))
          (Payload_Name (events' ! k)) payload metadata = Inr (w, tx'))"
  then have k: "k < length events'" and t0: "txs 0 = db" by simp_all
  have steps: "\<forall>i < k. appendEvent sp (txs i) id' (if i = 0 then expected else vs (i - 1))
                  (events' ! i) = Inr (vs i, txs (Suc i))"
    unfolding appendEvent_Inr using a by (elim conjE)
  have last: "\<forall>w tx'. appendEvent sp (txs k) id' (if k = 0 then expected else vs (k - 1))
                  (events' ! k) \<noteq> Inr (w, tx')"
    unfolding appendEvent_Inr using a by (elim conjE) blast
  from appendEvents_fails_at [OF k t0 steps last, of 0]
  obtain e where "snd (appendEvents sp db id' expected 0 events') = Inl e" by auto
  from Append_loop_fails [OF this]
  show "\<exists>err. snd (Append sp drv db id' expected events') = Inl err" .
  then obtain err where "snd (Append sp drv db id' expected events') = Inl err" ..
  from Append_Inl [OF this]
  show "events (fst (Append sp drv db id' expected events')) = events db" by auto
next
  assume a: "snd (Append sp drv db id' expected events') = Inr v"
  from Append_Inr_driver [OF a] show "BeginTx drv = None" and "Commit drv = None" by simp_all
  from appendEvents_chain [OF Append_Inr_committed [OF a]]
  show "\<exists>txs vs. txs 0 = db \<and>
         txs (length events') = fst (Append sp drv db id' expected events') \<and>
         (\<forall>i < length events'. \<exists>payload metadata.
            Payload_json (events' ! i) = Some payload \<and>
            (case Metadata (events' ! i) of None \<Rightarrow> Some ''{}'' | Some m \<Rightarrow> m) = Some metadata \<and>
            sp (txs i) (Type id') (Name id') (if i = 0 then expected else vs (i - 1))
               (Payload_Name (events' ! i)) payload metadata = Inr (vs i, txs (Suc i)))"
    unfolding appendEvent_Inr by (elim exE conjE, intro exI conjI) assumption+
qed

theorem Append_all_or_nothing_witness:
  "append_to_store (- 1) empty_store (Type order_42) (Name order_42) 0 (Payload_Name created)
      ''1'' ''{}'' =
     Inr (1, empty_store\<lparr>events := [order_42_row 1 1], events_global_sequence_number_seq := 2\<rparr>) \<and>
   Payload_json created = Some ''1'' \<and> Metadata created = None \<and>
   Payload_json unmarshalable = None \<and>
   appendEvents (append_to_store (- 1)) empty_store order_42 0 0 [created, unmarshalable] =
     (empty_store\<lparr>events := [order_42_row 1 1], events_global_sequence_number_seq := 2\<rparr>,
      Inl FailedToMarshalPayload) \<and>
   Append (append_to_store (- 1)) healthy empty_store order_42 0 [created, unmarshalable] =
     (empty_store\<lparr>events_global_sequence_number_seq := 2\<rparr>, Inl FailedToMarshalPayload) \<and>
   events (fst (Append (append_to_store (- 1)) healthy empty_store order_42 0
                  [created, unmarshalable])) = [] \<and>
   StreamAll Inr None (fst (Append (append_to_store (- 1)) healthy empty_store order_42 0
                  [created, unmarshalable])) 0 = (Inr [] :: go_error + event_row list) \<and>
   Append (append_to_store (- 1)) healthy empty_store order_42 0 [created, created] =
     (store_order_42, Inr 2) \<and>
   events store_order_42 = [order_42_row 1 1, order_42_row 2 2] \<and>
   BeginTx healthy = None \<and> Commit healthy = None \<and>
   (\<exists>txs vs. txs 0 = empty_store \<and> txs (length [created, created]) = store_order_42 \<and>
      (\<forall>i < length [created, created]. \<exists>payload metadata.
         Payload_json ([created, created] ! i) = Some payload \<and>
         (case Metadata ([created, created] ! i) of None \<Rightarrow> Some ''{}'' | Some m \<Rightarrow> m) =
           Some metadata \<and>
         append_to_store (- 1) (txs i) (Type order_42) (Name order_42)
            (if i = 0 then 0 else vs (i - 1)) (Payload_Name ([created, created] ! i))
            payload metadata = Inr (vs i, txs (Suc i))))"
proof -
  let ?tx = "empty_store\<lparr>events := [order_42_row 1 1], events_global_sequence_number_seq := 2\<rparr>"
  have marshal: "Payload_json created = Some ''1''" "Metadata created = None"
    "Payload_json unmarshalable = None"
    by (simp_all add: created_def unmarshalable_def)
  have committed:
    "snd (Append (append_to_store (- 1)) healthy empty_store order_42 0 [created, created]) = Inr 2"
    by (simp add: scenario_append)
  have failed:
    "snd (Append (append_to_store (- 1)) healthy empty_store order_42 0 [created, unmarshalable]) =
       Inl FailedToMarshalPayload"
    by (simp add: scenario_partial)
  note rollback =
    Append_all_or_nothing [where sp = "append_to_store (- 1)" and drv = healthy
      and db = empty_store and id' = order_42 and expected = 0
      and events' = "[created, unmarshalable]" and err = FailedToMarshalPayload
      and rowsToStream = "Inr :: event_row list \<Rightarrow> go_error + event_row list"
      and query_err = None and From = 0
      and k = 1 and txs = "\<lambda>i. if i = 0 then empty_store else ?tx" and vs = "\<lambda>i. 1",
      THEN conjunct1, THEN mp, OF failed]
  note commit =
    Append_all_or_nothing [where sp = "append_to_store (- 1)" and drv = healthy
      and db = empty_store and id' = order_42 and expected = 0
      and events' = "[created, created]" and v = 2,
      THEN conjunct2, THEN conjunct2, THEN mp, OF committed]
  note partial =
    Append_all_or_nothing [where sp = "append_to_store (- 1)" and drv = healthy
      and db = empty_store and id' = order_42 and expected = 0
      and events' = "[created, unmarshalable]"
      and k = 1 and txs = "\<lambda>i. if i = 0 then empty_store else ?tx" and vs = "\<lambda>i. 1",
      THEN conjunct2, THEN conjunct1]
  have "events (fst (Append (append_to_store (- 1)) healthy empty_store order_42 0
                  [created, unmarshalable])) = events empty_store"
    using partial marshal scenario_first by simp
  then have unchanged:
    "events (fst (Append (append_to_store (- 1)) healthy empty_store order_42 0
                  [created, unmarshalable])) = []"
    by (simp add: empty_store_def)
  have reads:
    "StreamAll Inr None (fst (Append (append_to_store (- 1)) healthy empty_store order_42 0
                  [created, unmarshalable])) 0 = (Inr [] :: go_error + event_row list)"
    using rollback by (simp add: StreamAll_def empty_store_def)
  have chain: "\<exists>txs vs. txs 0 = empty_store \<and> txs (length [created, created]) = store_order_42 \<and>
      (\<forall>i < length [created, created]. \<exists>payload metadata.
         Payload_json ([created, created] ! i) = Some payload \<and>
         (case Metadata ([created, created] ! i) of None \<Rightarrow> Some ''{}'' | Some m \<Rightarrow> m) =
           Some metadata \<and>
         append_to_store (- 1) (txs i) (Type order_42) (Name order_42)
            (if i = 0 then 0 else vs (i - 1)) (Payload_Name ([created, created] ! i))
            payload metadata = Inr (vs i, txs (Suc i)))"
    using commit [THEN conjunct2, THEN conjunct2] unfolding scenario_append fst_conv .
  show ?thesis
    using marshal scenario_first scenario_partial scenario_append unchanged reads chain
    by (simp add: store_order_42_def healthy_def)
qed

text \<open>With no event, \<^verbatim>\<open>Append\<close> commits an empty transaction and returns 0.\<close>

lemma Append_empty_batch:
  "BeginTx drv = None \<Longrightarrow> Commit drv = None \<Longrightarrow>
     Append sp drv db id' expected [] = (db, Inr 0)"
  by (simp add: Append_def)

text \<open>
  C6. Split a batch anywhere: \<open>es\<close>, then the event \<open>e\<close>, then \<open>rest\<close>. When
  \<^verbatim>\<open>Append\<close> succeeds, the loop has appended \<open>es\<close>, reaching the transaction state
  \<open>tx\<close> and the version \<open>v'\<close>, and \<open>e\<close> is appended in \<open>tx\<close> with the expected
  version \<open>v'\<close>, the version just written; only the first event of the batch (\<open>es = []\<close>)
  is appended with the expected version of the call, in the database as it was before the
  batch. When \<open>e\<close> is the last event, the version it was given is the result of
  \<^verbatim>\<open>Append\<close>, and the state after it is what is committed. (\<open>Append_append_to_store\<close>
  above adds what follows with the stored procedure of the spec: the batch succeeds
  exactly when the expected version of the call is the sentinel or the version of the stream
  before the batch, and the result is the version of the stream afterwards.)
\<close>

theorem Append_expected_advances:
  assumes split: "events' = es @ e # rest"
    and ok: "snd (Append sp drv db id' expected events') = Inr v"
  shows "\<exists>tx v' tx' v''.
           appendEvents sp db id' expected 0 es = (tx, Inr v') \<and>
           (es = [] \<longrightarrow> tx = db) \<and>
           appendEvent sp tx id' (if es = [] then expected else v') e = Inr (v'', tx') \<and>
           (rest = [] \<longrightarrow> v = v'' \<and> fst (Append sp drv db id' expected events') = tx')"
proof -
  let ?final = "fst (Append sp drv db id' expected events')"
  from Append_Inr_committed [OF ok] split
  have whole: "appendEvents sp db id' expected 0 (es @ e # rest) = (?final, Inr v)" by simp
  obtain tx r where pre: "appendEvents sp db id' expected 0 es = (tx, r)"
    by (cases "appendEvents sp db id' expected 0 es")
  from whole pre obtain v' where r: "r = Inr v'"
    by (cases r) (auto simp: appendEvents_append [of sp db id' expected 0 es "e # rest"])
  let ?x = "if es = [] then expected else v'"
  from whole pre r
  have step: "appendEvents sp tx id' ?x v' (e # rest) = (?final, Inr v)"
    by (simp add: appendEvents_append [of sp db id' expected 0 es "e # rest"])
  then obtain v'' tx' where one: "appendEvent sp tx id' ?x e = Inr (v'', tx')"
    and tail: "appendEvents sp tx' id' v'' v'' rest = (?final, Inr v)"
    by (cases "appendEvent sp tx id' ?x e") (auto split: prod.splits)
  from tail have "rest = [] \<longrightarrow> v = v'' \<and> ?final = tx'" by auto
  moreover from pre have "es = [] \<longrightarrow> tx = db" by auto
  ultimately show ?thesis using pre r one by blast
qed

theorem Append_expected_advances_witness:
  "[created, created] = [created] @ created # [] \<and>
   snd (Append (append_to_store (- 1)) healthy empty_store order_42 0 [created, created]) = Inr 2 \<and>
   (\<exists>tx v' tx' v''.
      appendEvents (append_to_store (- 1)) empty_store order_42 0 0 [created] = (tx, Inr v') \<and>
      ([created] = [] \<longrightarrow> tx = empty_store) \<and>
      appendEvent (append_to_store (- 1)) tx order_42 (if [created] = [] then 0 else v') created =
        Inr (v'', tx') \<and>
      ([] = ([] :: Event list) \<longrightarrow> 2 = v'' \<and>
         fst (Append (append_to_store (- 1)) healthy empty_store order_42 0 [created, created]) = tx'))"
proof -
  have split: "[created, created] = [created] @ created # []" by simp
  have ok: "snd (Append (append_to_store (- 1)) healthy empty_store order_42 0 [created, created]) = Inr 2"
    by (simp add: scenario_append)
  from Append_expected_advances [OF split ok] split ok show ?thesis by blast
qed

section \<open>The claim about the Checkpointer\<close>

lemma no_write_no_checkpoint:
  "tbl subscriptionName = None \<Longrightarrow> subscriptionName \<notin> fst ` set ws \<Longrightarrow>
     foldl (\<lambda>t (k, m). fst (Write None t k m)) tbl ws subscriptionName = None"
  by (induction ws arbitrary: tbl) (auto simp: Write_def)

text \<open>
  C9. \<^verbatim>\<open>Read\<close> returns 0 for a subscription that has no row, which is the case in the
  empty table and stays the case after any writes \<open>ws\<close> to other subscriptions.
  \<^verbatim>\<open>Write\<close> followed by \<^verbatim>\<open>Read\<close> of the same subscription returns the number written;
  writing the same number twice is writing it once; of two writes the last one wins; a write
  to another subscription does not change what \<^verbatim>\<open>Read\<close> returns.
\<close>

theorem Checkpointer_round_trip:
  "(subscriptionName \<notin> fst ` set ws \<longrightarrow>
      Read None (foldl (\<lambda>t (k, m). fst (Write None t k m)) Map.empty ws) subscriptionName = Inr 0) \<and>
   snd (Write None tbl subscriptionName n) = None \<and>
   Read None (fst (Write None tbl subscriptionName n)) subscriptionName = Inr n \<and>
   fst (Write None (fst (Write None tbl subscriptionName n)) subscriptionName n) =
     fst (Write None tbl subscriptionName n) \<and>
   fst (Write None (fst (Write None tbl subscriptionName m)) subscriptionName n) =
     fst (Write None tbl subscriptionName n) \<and>
   (other \<noteq> subscriptionName \<longrightarrow>
      Read None (fst (Write None tbl other m)) subscriptionName = Read None tbl subscriptionName)"
proof -
  have "subscriptionName \<notin> fst ` set ws \<longrightarrow>
      Read None (foldl (\<lambda>t (k, m). fst (Write None t k m)) Map.empty ws) subscriptionName = Inr 0"
    using no_write_no_checkpoint [of Map.empty subscriptionName ws] by (simp add: Read_def)
  then show ?thesis by (simp add: Read_def Write_def)
qed

theorem Checkpointer_round_trip_witness:
  "''test-subscription'' \<notin> fst ` set [(''other'', 7 :: int)] \<and>
   Read None (foldl (\<lambda>t (k, m). fst (Write None t k m)) Map.empty [(''other'', 7)])
     ''test-subscription'' = Inr 0 \<and>
   Read None (fst (Write None Map.empty ''test-subscription'' 1200)) ''test-subscription'' = Inr 1200 \<and>
   ''other'' \<noteq> ''test-subscription'' \<and>
   Read None (fst (Write None (fst (Write None Map.empty ''test-subscription'' 1200)) ''other'' 7))
     ''test-subscription'' = Inr 1200"
  using Checkpointer_round_trip [of "''test-subscription''" "[(''other'', 7)]" Map.empty 1200 7 "''other''"]
    Checkpointer_round_trip [of "''test-subscription''" "[]"
      "fst (Write None Map.empty ''test-subscription'' 1200)" 1200 7 "''other''"]
  by simp

section \<open>Consumer groups: lookups and queries\<close>

text \<open>
  \<open>lease_of\<close> finds no row exactly when no lease has the id; the row it finds has the id;
  and when the lease ids are distinct, as the primary key makes them, it finds every lease
  by its id.
\<close>

lemma lease_of_None: "lease_of db lid = None \<longleftrightarrow> lid \<notin> lease_id ` set (consumer_group_leases db)"
  by (auto simp: lease_of_def find_None_iff)

lemma lease_of_Some:
  "lease_of db lid = Some cgl \<Longrightarrow> cgl \<in> set (consumer_group_leases db) \<and> lease_id cgl = lid"
  by (auto simp: lease_of_def find_Some_iff)

lemma find_distinct_key:
  "distinct (map f xs) \<Longrightarrow> x \<in> set xs \<Longrightarrow> find (\<lambda>y. f y = f x) xs = Some x"
  by (induction xs) auto

lemma lease_of_primary_key:
  assumes "distinct (map lease_id (consumer_group_leases db))"
    and "cgl \<in> set (consumer_group_leases db)"
  shows "lease_of db (lease_id cgl) = Some cgl"
  using find_distinct_key [OF assms] by (simp add: lease_of_def)

lemma select_rows_Inr:
  "select_rows p rs = Inr rows \<Longrightarrow> rows = filter (\<lambda>r. p r = Inr True) rs"
  by (induction rs arbitrary: rows) (auto split: sum.splits)

lemma select_rows_total:
  "\<forall>r \<in> set rs. \<exists>b. p r = Inr b \<Longrightarrow> \<exists>rows. select_rows p rs = Inr rows"
  by (induction rs) (auto split: sum.splits)

subsection \<open>The partition of a stream\<close>

lemma partition_value_eq:
  assumes "n \<noteq> 0" and "sint (hash_64 v) \<noteq> - (2 ^ 63)"
  shows "partition_value v n = Inr (sgn \<bar>sint (hash_64 v)\<bar> * (\<bar>sint (hash_64 v)\<bar> mod \<bar>n\<bar>))"
  using assms by (simp add: partition_value_def sql_abs_def sql_MOD_def)

lemma partition_value_pos:
  assumes "0 < n" and "sint (hash_64 v) \<noteq> - (2 ^ 63)"
  shows "partition_value v n = Inr (\<bar>sint (hash_64 v)\<bar> mod n)"
proof (cases "sint (hash_64 v) = 0")
  case True
  with assms show ?thesis by (simp add: partition_value_def sql_abs_def sql_MOD_def)
next
  case False
  then have "sgn \<bar>sint (hash_64 v)\<bar> = 1" by simp
  with assms show ?thesis by (simp add: partition_value_def sql_abs_def sql_MOD_def)
qed

lemma in_partition_Some:
  assumes "0 < n" and "sint (hash_64 (stream_id e)) \<noteq> - (2 ^ 63)"
  shows "in_partition (Some n) m e = Inr (m = \<bar>sint (hash_64 (stream_id e))\<bar> mod n)"
proof -
  from partition_value_pos [OF assms]
  have "sql_MOD \<bar>sint (hash_64 (stream_id e))\<bar> n = Inr (\<bar>sint (hash_64 (stream_id e))\<bar> mod n)"
    using assms(2) by (simp add: partition_value_def sql_abs_def)
  with assms(2) show ?thesis by (auto simp: in_partition_def sql_abs_def)
qed

lemma in_partition_True:
  "in_partition size' m e = Inr True \<Longrightarrow>
     \<exists>n. size' = Some n \<and> partition_value (stream_id e) n = Inr m"
  by (auto simp: in_partition_def partition_value_def split: sum.splits option.splits)

lemma in_partition_total:
  assumes "sint (hash_64 (stream_id e)) \<noteq> - (2 ^ 63)" and "size' \<noteq> Some 0"
  shows "\<exists>b. in_partition size' m e = Inr b"
  using assms by (auto simp: in_partition_def sql_abs_def sql_MOD_def split: option.splits)

subsection \<open>Digests\<close>

text \<open>
  Three digests of the test suite of RFC 1321: of the empty message, of "abc", and of a
  message of two blocks.
\<close>

lemma md5_empty: "md5 [] = 0xd41d8cd98f00b204e9800998ecf8427e"
  by code_simp

lemma md5_abc: "md5 ''abc'' = 0x900150983cd24fb0d6963f7d28e17f72"
  by code_simp

lemma md5_two_blocks:
  "md5 ''12345678901234567890123456789012345678901234567890123456789012345678901234567890'' =
     0x57edf4a22be3c955ac49da2e2107b67a"
  by code_simp

text \<open>
  The stream identifiers of the examples: \<^verbatim>\<open>md5('42')\<close> is \<^verbatim>\<open>a1d0c6e83f027327d8461063f4ac58a6\<close> and \<^verbatim>\<open>md5('b')\<close> is
  \<^verbatim>\<open>92eb5ffee6ae2fec3ad71c777531578f\<close>. Both begin with a set bit: \<^verbatim>\<open>hash_64\<close> of both
  is negative.
\<close>

lemma md5_42: "md5 ''42'' = 0xa1d0c6e83f027327d8461063f4ac58a6"
  by code_simp

lemma md5_b: "md5 ''b'' = 0x92eb5ffee6ae2fec3ad71c777531578f"
  by code_simp

lemma sint_hash_64_42: "sint (hash_64 ''42'') = - 6786705937655499993"
  by (simp add: hash_64_def md5_42)

lemma sint_hash_64_b: "sint (hash_64 ''b'') = - 7860083176248561684"
  by (simp add: hash_64_def md5_b)

lemma in_partition_order_42: "in_partition (Some 2) m (order_42_row n v) = Inr (m = 1)"
  by (simp add: in_partition_def sql_abs_def sql_MOD_def order_42_row_def sint_hash_64_42)

lemma in_partition_order_b: "in_partition (Some 2) m (order_b_row n v) = Inr (m = 0)"
  by (simp add: in_partition_def sql_abs_def sql_MOD_def order_b_row_def sint_hash_64_b)

lemma row_simps:
  "global_sequence_number (order_42_row n v) = n" "stream_type (order_42_row n v) = ''order''"
  "stream_id (order_42_row n v) = ''42''" "version (order_42_row n v) = v"
  "global_sequence_number (order_b_row n v) = n" "stream_type (order_b_row n v) = ''order''"
  "stream_id (order_b_row n v) = ''b''" "version (order_b_row n v) = v"
  by (simp_all add: order_42_row_def order_b_row_def)

lemma store_g_simps:
  "events store_g = [order_42_row 1 1, order_b_row 2 1, order_42_row 3 2]"
  "events_global_sequence_number_seq store_g = 4"
  "consumer_groups store_g = [(''g'', 2)]"
  "consumer_group_leases store_g = [lease_A, lease_B]"
  by (simp_all add: store_g_def)

lemma lease_simps:
  "lease_id lease_A = 1" "lease_id lease_B = 2" "lease_id lease_B' = 2" "lease_id lease_C = 3"
  "consumer_group_name lease_A = ''g''" "consumer_group_name lease_B = ''g''"
  "consumer_group_name lease_B' = ''g''" "consumer_group_name lease_C = ''g''"
  "member_index lease_A = 0" "member_index lease_B = 1"
  "member_index lease_B' = 1" "member_index lease_C = 1"
  "expires_at lease_A = 3600000000" "expires_at lease_B = 3600000000"
  "expires_at lease_B' = 5400000000" "expires_at lease_C = 7600000000"
  by (simp_all add: lease_A_def lease_B_def lease_B'_def lease_C_def)

lemma renewed_lease_B:
  "renewed 1800000000 2 lease_A = lease_A" "renewed 1800000000 2 lease_B = lease_B'"
  by (simp_all add: renewed_def INTERVAL_1_HOUR_def lease_A_def lease_B_def lease_B'_def)

subsection \<open>The partition function\<close>

text \<open>
  C3 (amended). The claim reads the first 64 bits of the digest as an unsigned integer.
  \<^verbatim>\<open>hash_64\<close> casts them to \<^verbatim>\<open>BIGINT\<close>, a signed integer, and the query takes the
  absolute value (\<^verbatim>\<open>@\<close>) before \<^verbatim>\<open>MOD\<close>. Amended: for every group size \<open>n > 0\<close> and
  every stream identifier whose \<^verbatim>\<open>hash_64\<close> is not the smallest \<^verbatim>\<open>BIGINT\<close> (whose
  absolute value PostgreSQL refuses to compute), the partition value is the absolute value
  of the first 64 bits of the MD5 digest, read in two's complement, modulo \<open>n\<close>; it lies
  in \<open>[0, n)\<close>; and an event of that stream matches the member index equal to it and no
  other, so exactly one of the member indices \<open>0, ..., n - 1\<close>.
\<close>

theorem partition_value_range:
  assumes "0 < n" and "sint (hash_64 v) \<noteq> - (2 ^ 63)"
  shows "partition_value v n = Inr (\<bar>sint (hash_64 v)\<bar> mod n) \<and>
         0 \<le> \<bar>sint (hash_64 v)\<bar> mod n \<and> \<bar>sint (hash_64 v)\<bar> mod n < n \<and>
         (stream_id e = v \<longrightarrow>
            (\<forall>m. in_partition (Some n) m e = Inr (m = \<bar>sint (hash_64 v)\<bar> mod n)) \<and>
            (\<exists>!m. 0 \<le> m \<and> m < n \<and> in_partition (Some n) m e = Inr True))"
proof (intro conjI impI)
  show "partition_value v n = Inr (\<bar>sint (hash_64 v)\<bar> mod n)"
    by (rule partition_value_pos [OF assms])
  show lo: "0 \<le> \<bar>sint (hash_64 v)\<bar> mod n" using assms(1) by simp
  show hi: "\<bar>sint (hash_64 v)\<bar> mod n < n" using assms(1) by simp
  assume e: "stream_id e = v"
  with in_partition_Some [of n e] assms
  show all: "\<forall>m. in_partition (Some n) m e = Inr (m = \<bar>sint (hash_64 v)\<bar> mod n)" by simp
  show "\<exists>!m. 0 \<le> m \<and> m < n \<and> in_partition (Some n) m e = Inr True"
  proof (rule ex1I [of _ "\<bar>sint (hash_64 v)\<bar> mod n"])
    show "0 \<le> \<bar>sint (hash_64 v)\<bar> mod n \<and> \<bar>sint (hash_64 v)\<bar> mod n < n \<and>
          in_partition (Some n) (\<bar>sint (hash_64 v)\<bar> mod n) e = Inr True"
      using lo hi all by simp
  next
    fix m assume "0 \<le> m \<and> m < n \<and> in_partition (Some n) m e = Inr True"
    with all show "m = \<bar>sint (hash_64 v)\<bar> mod n" by simp
  qed
qed

text \<open>
  The claim as stated fails for the stream "42" and a group of size 3: the first 64 bits
  of the digest, unsigned, are 1 modulo 3, the code's partition value is 0, and an event of
  the stream does not match the member index 1.
\<close>

theorem partition_unsigned_counterexample:
  "partition_value ''42'' 3 = Inr 0 \<and>
   partition_unsigned ''42'' 3 = 1 \<and>
   stream_id (order_42_row 1 1) = ''42'' \<and>
   in_partition (Some 3) (partition_unsigned ''42'' 3) (order_42_row 1 1) = Inr False"
proof -
  have u: "partition_unsigned ''42'' 3 = 1"
    by (simp add: partition_unsigned_def md5_42)
  have "partition_value ''42'' 3 = Inr 0"
    by (simp add: partition_value_def sql_abs_def sql_MOD_def sint_hash_64_42)
  moreover have "in_partition (Some 3) 1 (order_42_row 1 1) = Inr False"
    by (simp add: in_partition_def sql_abs_def sql_MOD_def row_simps sint_hash_64_42)
  ultimately show ?thesis using u by (simp add: row_simps)
qed

theorem partition_value_range_witness:
  "(0::int) < 3 \<and> sint (hash_64 ''42'') \<noteq> - (2 ^ 63) \<and>
   partition_value ''42'' 3 = Inr 0 \<and>
   stream_id (order_42_row 1 1) = ''42'' \<and>
   (\<forall>m. in_partition (Some 3) m (order_42_row 1 1) = Inr (m = 0)) \<and>
   (\<exists>!m. 0 \<le> m \<and> m < 3 \<and> in_partition (Some 3) m (order_42_row 1 1) = Inr True)"
proof -
  have n: "(0::int) < 3" by simp
  have h: "sint (hash_64 ''42'') \<noteq> - (2 ^ 63)" by (simp add: sint_hash_64_42)
  have s: "stream_id (order_42_row 1 1) = ''42''" by (simp add: row_simps)
  have m: "\<bar>sint (hash_64 ''42'')\<bar> mod 3 = 0" by (simp add: sint_hash_64_42)
  from partition_value_range [OF n h, of "order_42_row 1 1"] s n h show ?thesis
    unfolding m by blast
qed

section \<open>Lease-scoped streaming\<close>

subsection \<open>The text of the conditions\<close>

text \<open>
  A type name without a quote is read as the string constant it is meant to be: the
  conditions are the comparison of the column with the name.
\<close>

lemma lex_string_body:
  "CHR 0x27 \<notin> set typ \<Longrightarrow>
     foldl lex_step (Some (In_string s, ts)) typ = Some (In_string (s @ typ), ts)"
  by (induction "typ" arbitrary: s) auto

lemma tokens_stream_type_conditions:
  assumes "CHR 0x27 \<notin> set typ"
  shows "tokens (stream_type_conditions typ) = Some [COLUMN_stream_type, EQUALS, STRING typ]"
proof -
  have "foldl lex_step (Some (Between, [])) (''e.stream_type = '' @ [CHR 0x27]) =
          Some (In_string [], [COLUMN_stream_type, EQUALS])"
    by (simp add: between_def word_char_def word_token_def)
  then have "foldl lex_step (Some (Between, [])) (stream_type_conditions typ) =
          Some (Quote_in_string typ, [COLUMN_stream_type, EQUALS])"
    using lex_string_body [OF assms, of "[]" "[COLUMN_stream_type, EQUALS]"]
    by (simp add: stream_type_conditions_def)
  then show ?thesis by (simp add: tokens_def)
qed

lemma read_stream_type_conditions:
  assumes "CHR 0x27 \<notin> set typ"
  shows "read_conditions (stream_type_conditions typ) =
           Some ([Equals Column_stream_type (Constant typ)], [])"
  by (simp add: read_conditions_def tokens_stream_type_conditions [OF assms]
      read_conjunction_def read_comparison_def compare_tokens_def)

lemma stream_by_type_unquoted:
  assumes "CHR 0x27 \<notin> set typ"
  shows "stream_by_type now db typ f b lid =
           Some (stream_events now db f b lid (Some ([Equals Column_stream_type (Constant typ)], [])))"
  by (simp add: stream_by_type_def read_stream_type_conditions [OF assms])

subsection \<open>The WHERE clause on a row\<close>

lemma where_row_None:
  "where_row size' m f None e = Inr True \<longleftrightarrow>
     f < global_sequence_number e \<and> in_partition size' m e = Inr True"
  by (cases "in_partition size' m e") (auto simp: where_row_def selects_def)

lemma where_row_conjunction:
  "where_row size' m f (Some (d, [])) e = Inr True \<longleftrightarrow>
     f < global_sequence_number e \<and> list_all (holds e) d \<and> in_partition size' m e = Inr True"
  by (cases "in_partition size' m e") (auto simp: where_row_def selects_def)

lemma where_row_stream_type:
  "where_row size' m f (Some ([Equals Column_stream_type (Constant typ)], [])) e = Inr True \<longleftrightarrow>
     f < global_sequence_number e \<and> stream_type e = typ \<and> in_partition size' m e = Inr True"
  by (simp add: where_row_conjunction)

lemma where_row_total:
  assumes "\<exists>p. in_partition size' m e = Inr p"
  shows "\<exists>r. where_row size' m f c e = Inr r"
  using assms by (auto simp: where_row_def)

subsection \<open>What a successful call returns\<close>

lemma stream_events_Inl:
  "lease_of db lid = None \<Longrightarrow> stream_events now db f b lid c = Inl ErrLeaseNotFound"
  "lease_of db lid = Some cgl \<Longrightarrow> expires_at cgl < now \<Longrightarrow>
     stream_events now db f b lid c = Inl ErrLeaseExpired"
  by (simp_all add: stream_events_def)

lemma stream_events_Inr:
  assumes "stream_events now db f b lid c = Inr (rows, db')"
  shows "\<exists>cgl. lease_of db lid = Some cgl \<and> \<not> expires_at cgl < now \<and>
           db' = db\<lparr>consumer_group_leases := map (renewed now lid) (consumer_group_leases db)\<rparr> \<and>
           rows =
             (let ordered = sort_key global_sequence_number
                    (filter (\<lambda>e. where_row (map_of (consumer_groups db) (consumer_group_name cgl))
                                    (member_index cgl) f c e = Inr True)
                       (events db))
              in if 0 < b then take (nat b) ordered else ordered)"
proof (cases "lease_of db lid")
  case None
  with assms show ?thesis by (simp add: stream_events_def)
next
  case (Some cgl)
  show ?thesis
  proof (cases "expires_at cgl < now")
    case True
    with Some assms show ?thesis by (simp add: stream_events_def)
  next
    case False
    let ?p = "where_row (map_of (consumer_groups db) (consumer_group_name cgl)) (member_index cgl) f c"
    from assms Some False obtain sel where sel: "select_rows ?p (events db) = Inr sel"
      by (cases "select_rows ?p (events db)") (auto simp: stream_events_def Let_def)
    from select_rows_Inr [OF sel] have "sel = filter (\<lambda>e. ?p e = Inr True) (events db)" .
    with assms Some False sel show ?thesis
      by (auto simp: stream_events_def Let_def)
  qed
qed

lemma stream_events_total:
  assumes "lease_of db lid = Some cgl" and "\<not> expires_at cgl < now"
    and "map_of (consumer_groups db) (consumer_group_name cgl) \<noteq> Some 0"
    and "\<forall>e \<in> set (events db). sint (hash_64 (stream_id e)) \<noteq> - (2 ^ 63)"
  shows "\<exists>rows db'. stream_events now db f b lid c = Inr (rows, db')"
proof -
  let ?p = "where_row (map_of (consumer_groups db) (consumer_group_name cgl)) (member_index cgl) f c"
  have "\<forall>e \<in> set (events db). \<exists>r. ?p e = Inr r"
    using assms(3,4) in_partition_total where_row_total by blast
  from select_rows_total [OF this] obtain sel where "select_rows ?p (events db) = Inr sel" ..
  with assms(1,2) show ?thesis by (simp add: stream_events_def Let_def)
qed

subsection \<open>The example store\<close>

lemma lease_of_store_g: "lease_of store_g 2 = Some lease_B" "lease_of store_g 5 = None"
  by (simp_all add: lease_of_def store_g_simps lease_simps)

lemma read_order: "read_conditions (stream_type_conditions ''order'') =
    Some ([Equals Column_stream_type (Constant ''order'')], [])"
  by (rule read_stream_type_conditions) simp

lemma read_quoted_type:
  "read_conditions (stream_type_conditions quoted_type) =
     Some ([Equals Column_stream_type (Constant ''x'')],
           [[Equals (Constant ''a'') (Constant ''a'')]])"
  by (simp add: read_conditions_def stream_type_conditions_def quoted_type_def tokens_def
      between_def word_char_def word_token_def read_conjunction_def read_comparison_def
      compare_tokens_def)

lemma where_row_store_g:
  "where_row (Some 2) 1 f None (order_42_row n v) = Inr (f < n)"
  "where_row (Some 2) 1 f None (order_b_row n v) = Inr False"
  "where_row (Some 2) 1 f (Some ([Equals Column_stream_type (Constant ''order'')], []))
     (order_42_row n v) = Inr (f < n)"
  "where_row (Some 2) 1 f (Some ([Equals Column_stream_type (Constant ''order'')], []))
     (order_b_row n v) = Inr False"
  by (simp_all add: where_row_def selects_def in_partition_order_42 in_partition_order_b
      row_simps)

lemma stream_all_store_g:
  "stream_all 1800000000 store_g f b 2 =
     Inr (let ordered = filter (\<lambda>e. f < global_sequence_number e) [order_42_row 1 1, order_42_row 3 2]
          in if 0 < b then take (nat b) ordered else ordered,
          store_g\<lparr>consumer_group_leases := [lease_A, lease_B']\<rparr>)"
  by (simp add: stream_all_def stream_events_def lease_of_store_g where_row_store_g
      in_partition_order_42 in_partition_order_b renewed_lease_B Let_def store_g_simps
      lease_simps row_simps)

lemma stream_by_type_store_g:
  "stream_by_type 1800000000 store_g ''order'' f b 2 =
     Some (Inr (let ordered = filter (\<lambda>e. f < global_sequence_number e)
                                [order_42_row 1 1, order_42_row 3 2]
                in if 0 < b then take (nat b) ordered else ordered,
                store_g\<lparr>consumer_group_leases := [lease_A, lease_B']\<rparr>))"
  by (simp add: stream_by_type_def read_order stream_events_def lease_of_store_g
      where_row_store_g in_partition_order_42 in_partition_order_b renewed_lease_B Let_def
      store_g_simps lease_simps row_simps)

lemma where_row_quoted_type:
  "where_row size' member f
     (Some ([Equals Column_stream_type (Constant ''x'')],
            [[Equals (Constant ''a'') (Constant ''a'')]])) e = Inr True"
  by (simp add: where_row_def selects_def)

lemma stream_by_type_quoted_type:
  "stream_by_type 1800000000 store_g quoted_type f b 2 =
     Some (Inr (let ordered = [order_42_row 1 1, order_b_row 2 1, order_42_row 3 2]
                in if 0 < b then take (nat b) ordered else ordered,
                store_g\<lparr>consumer_group_leases := [lease_A, lease_B']\<rparr>))"
  by (simp add: stream_by_type_def read_quoted_type stream_events_def lease_of_store_g
      where_row_quoted_type renewed_lease_B Let_def store_g_simps lease_simps row_simps)

subsection \<open>The rows of every read\<close>

lemma ordered_rows:
  "mset (sort_key k (filter P xs)) = filter_mset P (mset xs) \<and>
   sorted (map k (sort_key k (filter P xs)))"
  by simp

lemma stream_all_rows:
  assumes "stream_all now db from_sequence_number batch_size lid = Inr (result, db')"
  shows "\<exists>cgl ordered. lease_of db lid = Some cgl \<and>
         mset ordered =
           filter_mset (\<lambda>e. from_sequence_number < global_sequence_number e \<and>
                  in_partition (map_of (consumer_groups db) (consumer_group_name cgl))
                    (member_index cgl) e = Inr True) (mset (events db)) \<and>
         sorted (map global_sequence_number ordered) \<and>
         result = (if 0 < batch_size then take (nat batch_size) ordered else ordered)"
proof -
  from assms
  have "stream_events now db from_sequence_number batch_size lid None = Inr (result, db')"
    by (simp add: stream_all_def)
  from stream_events_Inr [OF this] obtain cgl where l: "lease_of db lid = Some cgl"
    and r: "result =
             (let ordered = sort_key global_sequence_number
                    (filter (\<lambda>e. where_row (map_of (consumer_groups db) (consumer_group_name cgl))
                                    (member_index cgl) from_sequence_number None e = Inr True)
                       (events db))
              in if 0 < batch_size then take (nat batch_size) ordered else ordered)"
    by blast
  let ?P = "\<lambda>e. from_sequence_number < global_sequence_number e \<and>
                  in_partition (map_of (consumer_groups db) (consumer_group_name cgl))
                    (member_index cgl) e = Inr True"
  from r have "result = (if 0 < batch_size
      then take (nat batch_size) (sort_key global_sequence_number (filter ?P (events db)))
      else sort_key global_sequence_number (filter ?P (events db)))"
    by (simp add: Let_def where_row_None)
  with l ordered_rows [of global_sequence_number ?P "events db"]
  show ?thesis by blast
qed

lemma stream_by_type_rows:
  assumes "CHR 0x27 \<notin> set typ"
    and "stream_by_type now db typ from_sequence_number batch_size lid = Some (Inr (result, db'))"
  shows "\<exists>cgl ordered. lease_of db lid = Some cgl \<and>
         mset ordered =
           filter_mset (\<lambda>e. from_sequence_number < global_sequence_number e \<and>
                  stream_type e = typ \<and>
                  in_partition (map_of (consumer_groups db) (consumer_group_name cgl))
                    (member_index cgl) e = Inr True) (mset (events db)) \<and>
         sorted (map global_sequence_number ordered) \<and>
         result = (if 0 < batch_size then take (nat batch_size) ordered else ordered)"
proof -
  from assms
  have "stream_events now db from_sequence_number batch_size lid
               (Some ([Equals Column_stream_type (Constant typ)], [])) = Inr (result, db')"
    by (simp add: stream_by_type_unquoted)
  from stream_events_Inr [OF this] obtain cgl where l: "lease_of db lid = Some cgl"
    and r: "result =
             (let ordered = sort_key global_sequence_number
                    (filter (\<lambda>e. where_row (map_of (consumer_groups db) (consumer_group_name cgl))
                                    (member_index cgl) from_sequence_number
                                    (Some ([Equals Column_stream_type (Constant typ)], [])) e =
                                  Inr True)
                       (events db))
              in if 0 < batch_size then take (nat batch_size) ordered else ordered)"
    by blast
  let ?P = "\<lambda>e. from_sequence_number < global_sequence_number e \<and> stream_type e = typ \<and>
                  in_partition (map_of (consumer_groups db) (consumer_group_name cgl))
                    (member_index cgl) e = Inr True"
  from r have "result = (if 0 < batch_size
      then take (nat batch_size) (sort_key global_sequence_number (filter ?P (events db)))
      else sort_key global_sequence_number (filter ?P (events db)))"
    by (simp add: Let_def where_row_stream_type)
  with l ordered_rows [of global_sequence_number ?P "events db"]
  show ?thesis by blast
qed

lemma StreamAll_rows:
  "\<exists>rows. StreamAll rowsToStream None db From = rowsToStream rows \<and>
      mset rows = filter_mset (\<lambda>e. From \<le> global_sequence_number e) (mset (events db)) \<and>
      sorted (map global_sequence_number rows)"
  unfolding StreamAll_def using ordered_rows by fastforce

lemma StreamByType_rows:
  "\<exists>rows. StreamByType rowsToStream None db typ From = rowsToStream rows \<and>
      mset rows = filter_mset (\<lambda>e. stream_type e = typ \<and> From \<le> global_sequence_number e)
                    (mset (events db)) \<and>
      sorted (map global_sequence_number rows)"
  unfolding StreamByType_def using ordered_rows by fastforce

lemma Stream_rows:
  "\<exists>rows. Stream rowsToStream None db id' From = rowsToStream rows \<and>
      mset rows = filter_mset (\<lambda>e. stream_type e = Type id' \<and> stream_id e = Name id' \<and>
                                   From \<le> version e) (mset (events db)) \<and>
      sorted (map version rows)"
  unfolding Stream_def using ordered_rows by fastforce

text \<open>
  C7 (amended). The claim gives every read the bound \<open>\<ge>\<close> and a limit. Amended:
  \<^verbatim>\<open>StreamAll\<close> and \<^verbatim>\<open>StreamByType\<close> hand to \<^verbatim>\<open>rowsToStream\<close> exactly the committed
  events (of the type) with global sequence number \<open>\<ge> From\<close>, ascending by global
  sequence number, and \<^verbatim>\<open>Stream\<close> exactly the events of the stream with version
  \<open>\<ge> From\<close>, ascending by version; the three take no limit. A lease-scoped call
  (\<^verbatim>\<open>stream_all\<close>, or \<^verbatim>\<open>stream_by_type\<close> for a type name without a quote) that
  succeeds returns the committed events (of the type) with global sequence number strictly
  greater than \<^verbatim>\<open>from_sequence_number\<close>
  that are in the partition of the lease, ascending by global sequence number: the first
  \<^verbatim>\<open>batch_size\<close> of them when \<^verbatim>\<open>batch_size\<close> is positive, all of them otherwise.
\<close>

theorem stream_reads:
  "(\<exists>rows. StreamAll rowsToStream None db From = rowsToStream rows \<and>
      mset rows = filter_mset (\<lambda>e. From \<le> global_sequence_number e) (mset (events db)) \<and>
      sorted (map global_sequence_number rows)) \<and>
   (\<exists>rows. StreamByType rowsToStream None db typ From = rowsToStream rows \<and>
      mset rows = filter_mset (\<lambda>e. stream_type e = typ \<and> From \<le> global_sequence_number e)
                    (mset (events db)) \<and>
      sorted (map global_sequence_number rows)) \<and>
   (\<exists>rows. Stream rowsToStream None db id' From = rowsToStream rows \<and>
      mset rows = filter_mset (\<lambda>e. stream_type e = Type id' \<and> stream_id e = Name id' \<and>
                                   From \<le> version e) (mset (events db)) \<and>
      sorted (map version rows)) \<and>
   (stream_all now db from_sequence_number batch_size lid = Inr (result, db') \<longrightarrow>
      (\<exists>cgl ordered. lease_of db lid = Some cgl \<and>
         mset ordered =
           filter_mset (\<lambda>e. from_sequence_number < global_sequence_number e \<and>
                  in_partition (map_of (consumer_groups db) (consumer_group_name cgl))
                    (member_index cgl) e = Inr True) (mset (events db)) \<and>
         sorted (map global_sequence_number ordered) \<and>
         result = (if 0 < batch_size then take (nat batch_size) ordered else ordered))) \<and>
   (CHR 0x27 \<notin> set typ \<and>
    stream_by_type now db typ from_sequence_number batch_size lid = Some (Inr (result', db'')) \<longrightarrow>
      (\<exists>cgl ordered. lease_of db lid = Some cgl \<and>
         mset ordered =
           filter_mset (\<lambda>e. from_sequence_number < global_sequence_number e \<and>
                  stream_type e = typ \<and>
                  in_partition (map_of (consumer_groups db) (consumer_group_name cgl))
                    (member_index cgl) e = Inr True) (mset (events db)) \<and>
         sorted (map global_sequence_number ordered) \<and>
         result' = (if 0 < batch_size then take (nat batch_size) ordered else ordered)))"
proof (intro conjI impI)
  assume "stream_all now db from_sequence_number batch_size lid = Inr (result, db')"
  then show "\<exists>cgl ordered. lease_of db lid = Some cgl \<and>
         mset ordered =
           filter_mset (\<lambda>e. from_sequence_number < global_sequence_number e \<and>
                  in_partition (map_of (consumer_groups db) (consumer_group_name cgl))
                    (member_index cgl) e = Inr True) (mset (events db)) \<and>
         sorted (map global_sequence_number ordered) \<and>
         result = (if 0 < batch_size then take (nat batch_size) ordered else ordered)"
    by (rule stream_all_rows)
next
  assume a: "CHR 0x27 \<notin> set typ \<and>
    stream_by_type now db typ from_sequence_number batch_size lid = Some (Inr (result', db''))"
  then have q: "CHR 0x27 \<notin> set typ"
    and s: "stream_by_type now db typ from_sequence_number batch_size lid = Some (Inr (result', db''))"
    by simp_all
  show "\<exists>cgl ordered. lease_of db lid = Some cgl \<and>
         mset ordered =
           filter_mset (\<lambda>e. from_sequence_number < global_sequence_number e \<and>
                  stream_type e = typ \<and>
                  in_partition (map_of (consumer_groups db) (consumer_group_name cgl))
                    (member_index cgl) e = Inr True) (mset (events db)) \<and>
         sorted (map global_sequence_number ordered) \<and>
         result' = (if 0 < batch_size then take (nat batch_size) ordered else ordered)"
    by (rule stream_by_type_rows [OF q s])
qed (rule StreamAll_rows StreamByType_rows Stream_rows)+

text \<open>
  The claim as stated fails for \<^verbatim>\<open>stream_all\<close> from sequence number 1: the event with
  global sequence number 1 is committed and in the partition of the lease, and is not
  returned. And it fails, as does the amended claim without its condition on the type name,
  for \<^verbatim>\<open>stream_by_type\<close> with the type name \<^verbatim>\<open>x') OR ('a'='a\<close> from sequence number
  3: the three events of the store are returned, none of which has that type or a global
  sequence number above 3.
\<close>

theorem stream_reads_counterexample:
  "stream_all 1800000000 store_g 1 0 2 =
     Inr ([order_42_row 3 2], store_g\<lparr>consumer_group_leases := [lease_A, lease_B']\<rparr>) \<and>
   order_42_row 1 1 \<in> set (events store_g) \<and>
   global_sequence_number (order_42_row 1 1) \<ge> 1 \<and>
   lease_of store_g 2 = Some lease_B \<and>
   in_partition (map_of (consumer_groups store_g) (consumer_group_name lease_B))
     (member_index lease_B) (order_42_row 1 1) = Inr True \<and>
   order_42_row 1 1 \<notin> set [order_42_row 3 2] \<and>
   stream_by_type 1800000000 store_g quoted_type 3 0 2 =
     Some (Inr ([order_42_row 1 1, order_b_row 2 1, order_42_row 3 2],
                store_g\<lparr>consumer_group_leases := [lease_A, lease_B']\<rparr>)) \<and>
   filter (\<lambda>e. stream_type e = quoted_type \<and> 3 \<le> global_sequence_number e) (events store_g) = []"
proof -
  have "order_42_row 1 1 \<notin> set [order_42_row 3 2]" by (simp add: order_42_row_def)
  moreover have "stream_by_type 1800000000 store_g quoted_type 3 0 2 =
     Some (Inr ([order_42_row 1 1, order_b_row 2 1, order_42_row 3 2],
                store_g\<lparr>consumer_group_leases := [lease_A, lease_B']\<rparr>))"
    by (simp add: stream_by_type_quoted_type)
  moreover have "filter (\<lambda>e. stream_type e = quoted_type \<and> 3 \<le> global_sequence_number e)
      (events store_g) = []"
    by (simp add: store_g_simps row_simps quoted_type_def)
  ultimately show ?thesis
    by (simp add: stream_all_store_g store_g_simps lease_of_store_g lease_simps row_simps
        in_partition_order_42)
qed

theorem stream_reads_witness:
  "stream_all 1800000000 store_g 0 1 2 =
     Inr ([order_42_row 1 1], store_g\<lparr>consumer_group_leases := [lease_A, lease_B']\<rparr>) \<and>
   (\<exists>cgl ordered. lease_of store_g 2 = Some cgl \<and>
         mset ordered =
           filter_mset (\<lambda>e. 0 < global_sequence_number e \<and>
                  in_partition (map_of (consumer_groups store_g) (consumer_group_name cgl))
                    (member_index cgl) e = Inr True) (mset (events store_g)) \<and>
         sorted (map global_sequence_number ordered) \<and>
         [order_42_row 1 1] = (if (0::int) < 1 then take (nat 1) ordered else ordered)) \<and>
   CHR 0x27 \<notin> set ''order'' \<and>
   stream_by_type 1800000000 store_g ''order'' 0 0 2 =
     Some (Inr ([order_42_row 1 1, order_42_row 3 2],
                store_g\<lparr>consumer_group_leases := [lease_A, lease_B']\<rparr>)) \<and>
   (\<exists>cgl ordered. lease_of store_g 2 = Some cgl \<and>
         mset ordered =
           filter_mset (\<lambda>e. 0 < global_sequence_number e \<and> stream_type e = ''order'' \<and>
                  in_partition (map_of (consumer_groups store_g) (consumer_group_name cgl))
                    (member_index cgl) e = Inr True) (mset (events store_g)) \<and>
         sorted (map global_sequence_number ordered) \<and>
         [order_42_row 1 1, order_42_row 3 2] =
           (if (0::int) < 0 then take (nat 0) ordered else ordered))"
proof -
  have a: "stream_all 1800000000 store_g 0 1 2 =
     Inr ([order_42_row 1 1], store_g\<lparr>consumer_group_leases := [lease_A, lease_B']\<rparr>)"
    by (simp add: stream_all_store_g row_simps)
  have b: "stream_by_type 1800000000 store_g ''order'' 0 0 2 =
     Some (Inr ([order_42_row 1 1, order_42_row 3 2],
                store_g\<lparr>consumer_group_leases := [lease_A, lease_B']\<rparr>))"
    by (simp add: stream_by_type_store_g row_simps)
  from stream_reads [of Inr store_g 0 "''order''" order_42 1800000000 0 1 2
      "[order_42_row 1 1]" "store_g\<lparr>consumer_group_leases := [lease_A, lease_B']\<rparr>"
      "[order_42_row 1 1]" "store_g"] a
  have c: "\<exists>cgl ordered. lease_of store_g 2 = Some cgl \<and>
         mset ordered =
           filter_mset (\<lambda>e. 0 < global_sequence_number e \<and>
                  in_partition (map_of (consumer_groups store_g) (consumer_group_name cgl))
                    (member_index cgl) e = Inr True) (mset (events store_g)) \<and>
         sorted (map global_sequence_number ordered) \<and>
         [order_42_row 1 1] = (if (0::int) < 1 then take (nat 1) ordered else ordered)"
    by blast
  have q: "CHR 0x27 \<notin> set ''order''" by simp
  from stream_reads [of Inr store_g 0 "''order''" order_42 1800000000 0 0 2
      "[order_42_row 1 1]" "store_g" "[order_42_row 1 1, order_42_row 3 2]"
      "store_g\<lparr>consumer_group_leases := [lease_A, lease_B']\<rparr>"] b q
  have d: "\<exists>cgl ordered. lease_of store_g 2 = Some cgl \<and>
         mset ordered =
           filter_mset (\<lambda>e. 0 < global_sequence_number e \<and> stream_type e = ''order'' \<and>
                  in_partition (map_of (consumer_groups store_g) (consumer_group_name cgl))
                    (member_index cgl) e = Inr True) (mset (events store_g)) \<and>
         sorted (map global_sequence_number ordered) \<and>
         [order_42_row 1 1, order_42_row 3 2] =
           (if (0::int) < 0 then take (nat 0) ordered else ordered)"
    by blast
  from a b c d q show ?thesis by blast
qed

subsection \<open>The lease of a call\<close>

lemma stream_events_rows_in_partition:
  assumes "stream_events now db f b lid c = Inr (rows, db')"
    and "c = None \<or> (\<exists>d. c = Some (d, []))"
  shows "\<exists>cgl. lease_of db lid = Some cgl \<and> now \<le> expires_at cgl \<and>
           (\<forall>e \<in> set rows. e \<in> set (events db) \<and>
              (\<exists>n. map_of (consumer_groups db) (consumer_group_name cgl) = Some n \<and>
                   partition_value (stream_id e) n = Inr (member_index cgl)))"
proof -
  from stream_events_Inr [OF assms(1)] obtain cgl where l: "lease_of db lid = Some cgl"
    and x: "\<not> expires_at cgl < now"
    and r: "rows =
             (let ordered = sort_key global_sequence_number
                    (filter (\<lambda>e. where_row (map_of (consumer_groups db) (consumer_group_name cgl))
                                    (member_index cgl) f c e = Inr True)
                       (events db))
              in if 0 < b then take (nat b) ordered else ordered)"
    by blast
  have "\<forall>e \<in> set rows. e \<in> set (events db) \<and>
          in_partition (map_of (consumer_groups db) (consumer_group_name cgl))
            (member_index cgl) e = Inr True"
  proof
    fix e assume "e \<in> set rows"
    with r have "e \<in> set (sort_key global_sequence_number
                    (filter (\<lambda>e. where_row (map_of (consumer_groups db) (consumer_group_name cgl))
                                    (member_index cgl) f c e = Inr True)
                       (events db)))"
      by (auto simp: Let_def split: if_splits dest: in_set_takeD)
    then have "e \<in> set (events db) \<and>
            where_row (map_of (consumer_groups db) (consumer_group_name cgl))
              (member_index cgl) f c e = Inr True"
      by simp
    with assms(2) show "e \<in> set (events db) \<and>
          in_partition (map_of (consumer_groups db) (consumer_group_name cgl))
            (member_index cgl) e = Inr True"
      by (auto simp: where_row_None where_row_conjunction)
  qed
  with in_partition_True l x show ?thesis by fastforce
qed

text \<open>
  A call of \<^verbatim>\<open>stream_all\<close>, or of \<^verbatim>\<open>stream_by_type\<close> for a type name without a quote:
  (1) it fails with \<open>ErrLeaseNotFound\<close> when no lease has the id and (2) with
  \<open>ErrLeaseExpired\<close> when the lease's \<^verbatim>\<open>expires_at\<close> is before \<^verbatim>\<open>NOW()\<close>; (3) the rows
  it returns are committed events whose partition value is the member index of the lease;
  (4) it returns rows when the lease has not expired, the size of its group is not 0 and no
  event's \<^verbatim>\<open>hash_64\<close> is the smallest \<^verbatim>\<open>BIGINT\<close>.
\<close>

lemma lease_scoped_stream_validates_lease:
  assumes "call = stream_all now db f b lid \<or>
           CHR 0x27 \<notin> set typ \<and> Some call = stream_by_type now db typ f b lid"
  shows "(lid \<notin> lease_id ` set (consumer_group_leases db) \<longrightarrow> call = Inl ErrLeaseNotFound) \<and>
         (\<forall>cgl. lease_of db lid = Some cgl \<and> expires_at cgl < now \<longrightarrow>
            call = Inl ErrLeaseExpired) \<and>
         (\<forall>rows db'. call = Inr (rows, db') \<longrightarrow>
            (\<exists>cgl. lease_of db lid = Some cgl \<and> now \<le> expires_at cgl \<and>
               (\<forall>e \<in> set rows. e \<in> set (events db) \<and>
                  (\<exists>n. map_of (consumer_groups db) (consumer_group_name cgl) = Some n \<and>
                       partition_value (stream_id e) n = Inr (member_index cgl))))) \<and>
         (\<forall>cgl. lease_of db lid = Some cgl \<and> now \<le> expires_at cgl \<and>
            map_of (consumer_groups db) (consumer_group_name cgl) \<noteq> Some 0 \<and>
            (\<forall>e \<in> set (events db). sint (hash_64 (stream_id e)) \<noteq> - (2 ^ 63)) \<longrightarrow>
            (\<exists>rows db'. call = Inr (rows, db')))"
proof -
  from assms obtain c where call: "call = stream_events now db f b lid c"
    and c: "c = None \<or> (\<exists>d. c = Some (d, []))"
    by (auto simp: stream_all_def stream_by_type_unquoted)
  have a: "lid \<notin> lease_id ` set (consumer_group_leases db) \<longrightarrow> call = Inl ErrLeaseNotFound"
    using stream_events_Inl(1) [of db lid now f b c] call by (simp add: lease_of_None)
  have b: "\<forall>cgl. lease_of db lid = Some cgl \<and> expires_at cgl < now \<longrightarrow>
            call = Inl ErrLeaseExpired"
    using stream_events_Inl(2) [of db lid _ now f b c] call by simp
  have c': "\<forall>rows db'. call = Inr (rows, db') \<longrightarrow>
            (\<exists>cgl. lease_of db lid = Some cgl \<and> now \<le> expires_at cgl \<and>
               (\<forall>e \<in> set rows. e \<in> set (events db) \<and>
                  (\<exists>n. map_of (consumer_groups db) (consumer_group_name cgl) = Some n \<and>
                       partition_value (stream_id e) n = Inr (member_index cgl))))"
    using stream_events_rows_in_partition [of now db f b lid c] call c by simp
  have d: "\<forall>cgl. lease_of db lid = Some cgl \<and> now \<le> expires_at cgl \<and>
            map_of (consumer_groups db) (consumer_group_name cgl) \<noteq> Some 0 \<and>
            (\<forall>e \<in> set (events db). sint (hash_64 (stream_id e)) \<noteq> - (2 ^ 63)) \<longrightarrow>
            (\<exists>rows db'. call = Inr (rows, db'))"
  proof (intro allI impI)
    fix cgl
    assume h: "lease_of db lid = Some cgl \<and> now \<le> expires_at cgl \<and>
            map_of (consumer_groups db) (consumer_group_name cgl) \<noteq> Some 0 \<and>
            (\<forall>e \<in> set (events db). sint (hash_64 (stream_id e)) \<noteq> - (2 ^ 63))"
    then have "\<not> expires_at cgl < now" by simp
    with stream_events_total [of db lid cgl now f b c] h call
    show "\<exists>rows db'. call = Inr (rows, db')" by simp
  qed
  from a b c' d show ?thesis by blast
qed

text \<open>
  C8 (the code does not do this for every call). The claim: with a valid lease, only events
  whose partition value equals the member index of the lease are produced.
  \<^verbatim>\<open>stream_by_type\<close> puts the type name into the text of the query between two quotes
  and does not escape it. With the type name \<^verbatim>\<open>x') OR ('a'='a\<close> the query ends with
  \<^verbatim>\<open>AND (e.stream_type = 'x') OR ('a'='a')\<close>, which selects every row: with the lease of
  the member 1 of the group "g" of size 2, the call returns the event of the stream
  ("order", "b"), whose partition value is 0.
\<close>

theorem stream_by_type_outside_partition:
  "lease_of store_g 2 = Some lease_B \<and> expires_at lease_B \<ge> 1800000000 \<and>
   member_index lease_B = 1 \<and>
   map_of (consumer_groups store_g) (consumer_group_name lease_B) = Some 2 \<and>
   stream_by_type 1800000000 store_g quoted_type 0 0 2 =
     Some (Inr ([order_42_row 1 1, order_b_row 2 1, order_42_row 3 2],
                store_g\<lparr>consumer_group_leases := [lease_A, lease_B']\<rparr>)) \<and>
   partition_value (stream_id (order_b_row 2 1)) 2 = Inr 0"
proof -
  have "partition_value (stream_id (order_b_row 2 1)) 2 = Inr 0"
    by (simp add: partition_value_def sql_abs_def sql_MOD_def row_simps sint_hash_64_b)
  then show ?thesis
    by (simp add: stream_by_type_quoted_type lease_of_store_g lease_simps store_g_simps)
qed

subsection \<open>The renewal\<close>

lemma stream_events_renews:
  assumes "stream_events now db f b lid c = Inr (rows, db')"
  shows "events db' = events db \<and>
         events_global_sequence_number_seq db' = events_global_sequence_number_seq db \<and>
         consumer_groups db' = consumer_groups db \<and>
         length (consumer_group_leases db') = length (consumer_group_leases db) \<and>
         (\<exists>cgl \<in> set (consumer_group_leases db). lease_id cgl = lid) \<and>
         (\<forall>i < length (consumer_group_leases db).
            (lease_id (consumer_group_leases db ! i) = lid \<longrightarrow>
               consumer_group_leases db' ! i =
                 (consumer_group_leases db ! i)
                   \<lparr>last_action_at := now, expires_at := now + INTERVAL_1_HOUR\<rparr>) \<and>
            (lease_id (consumer_group_leases db ! i) \<noteq> lid \<longrightarrow>
               consumer_group_leases db' ! i = consumer_group_leases db ! i))"
proof -
  from stream_events_Inr [OF assms] obtain cgl where l: "lease_of db lid = Some cgl"
    and d: "db' = db\<lparr>consumer_group_leases := map (renewed now lid) (consumer_group_leases db)\<rparr>"
    by blast
  from lease_of_Some [OF l] have "\<exists>cgl \<in> set (consumer_group_leases db). lease_id cgl = lid"
    by blast
  with d show ?thesis by (simp add: renewed_def)
qed

text \<open>
  A call of \<^verbatim>\<open>stream_all\<close>, and a call of \<^verbatim>\<open>stream_by_type\<close> whose conditions the model
  reads, renews the lease when it succeeds: the row with the id has \<^verbatim>\<open>last_action_at\<close>
  set to \<^verbatim>\<open>NOW()\<close> and \<^verbatim>\<open>expires_at\<close> to \<^verbatim>\<open>NOW()\<close> plus one hour, and nothing else
  changes. (The conditions the model reads hold no call of a function.)
\<close>

lemma lease_scoped_stream_renews_lease:
  assumes "call = stream_all now db f b lid \<or> Some call = stream_by_type now db typ f b lid"
    and "call = Inr (rows, db')"
  shows "events db' = events db \<and>
         events_global_sequence_number_seq db' = events_global_sequence_number_seq db \<and>
         consumer_groups db' = consumer_groups db \<and>
         length (consumer_group_leases db') = length (consumer_group_leases db) \<and>
         (\<exists>cgl \<in> set (consumer_group_leases db). lease_id cgl = lid) \<and>
         (\<forall>i < length (consumer_group_leases db).
            (lease_id (consumer_group_leases db ! i) = lid \<longrightarrow>
               consumer_group_leases db' ! i =
                 (consumer_group_leases db ! i)
                   \<lparr>last_action_at := now, expires_at := now + INTERVAL_1_HOUR\<rparr>) \<and>
            (lease_id (consumer_group_leases db ! i) \<noteq> lid \<longrightarrow>
               consumer_group_leases db' ! i = consumer_group_leases db ! i))"
proof -
  from assms obtain c where "stream_events now db f b lid c = Inr (rows, db')"
    by (auto simp: stream_all_def stream_by_type_def split: option.splits)
  from stream_events_renews [OF this] show ?thesis .
qed

text \<open>
  C10 (the code does not do this for every call). The claim: a successful call changes no
  other lease. That holds of \<^verbatim>\<open>stream_all\<close>, and of \<^verbatim>\<open>stream_by_type\<close> while the type
  name adds only comparisons to the query (\<open>lease_scoped_stream_renews_lease\<close>). The type
  name is not escaped, and it can add a call of a function: with
  \<^verbatim>\<open>x') OR EXISTS (SELECT 1 FROM stream_all(0, 0, '...')) OR ('a'='b\<close> and the id of
  another unexpired lease in it, the query calls \<^verbatim>\<open>stream_all\<close> for that lease on the
  first row whose type is not \<^verbatim>\<open>x\<close>, which renews that lease too. Such a query text is
  outside the model.
\<close>

lemma stream_by_type_calling_type:
  "stream_by_type now db calling_type f b lid = None"
  by (simp add: stream_by_type_def read_conditions_def stream_type_conditions_def
      calling_type_def tokens_def between_def word_char_def word_token_def)

section \<open>Announcing a member\<close>

subsection \<open>The lowest free index\<close>

lemma first_free_least:
  assumes "card (set taken \<inter> {i..}) \<le> fuel"
  shows "i \<le> first_free taken i fuel \<and> first_free taken i fuel \<notin> set taken \<and>
         (\<forall>j. i \<le> j \<and> j < first_free taken i fuel \<longrightarrow> j \<in> set taken)"
  using assms
proof (induction fuel arbitrary: i)
  case 0
  then have "set taken \<inter> {i..} = {}" by simp
  then have "i \<notin> set taken" by auto
  then show ?case by auto
next
  case (Suc fuel)
  show ?case
  proof (cases "i \<in> set taken")
    case False
    then show ?thesis by auto
  next
    case True
    have "set taken \<inter> {i + 1..} = (set taken \<inter> {i..}) - {i}" by auto
    moreover from True have "i \<in> set taken \<inter> {i..}" by simp
    ultimately have "card (set taken \<inter> {i + 1..}) = card (set taken \<inter> {i..}) - 1"
      by simp
    with Suc.prems have "card (set taken \<inter> {i + 1..}) \<le> fuel" by simp
    from Suc.IH [OF this]
    have ih: "i + 1 \<le> first_free taken (i + 1) fuel \<and>
              first_free taken (i + 1) fuel \<notin> set taken \<and>
              (\<forall>j. i + 1 \<le> j \<and> j < first_free taken (i + 1) fuel \<longrightarrow> j \<in> set taken)" .
    have "\<forall>j. i \<le> j \<and> j < first_free taken (i + 1) fuel \<longrightarrow> j \<in> set taken"
    proof (intro allI impI)
      fix j assume j: "i \<le> j \<and> j < first_free taken (i + 1) fuel"
      show "j \<in> set taken"
      proof (cases "j = i")
        case True
        with \<open>i \<in> set taken\<close> show ?thesis by simp
      next
        case False
        with j have "i + 1 \<le> j" by simp
        with ih j show ?thesis by blast
      qed
    qed
    with True ih show ?thesis by simp
  qed
qed

lemma lowest_free_index_least:
  "0 \<le> lowest_free_index now db name \<and>
   lowest_free_index now db name \<notin> set (taken_indices now db name) \<and>
   (\<forall>j. 0 \<le> j \<and> j < lowest_free_index now db name \<longrightarrow> j \<in> set (taken_indices now db name))"
proof -
  let ?t = "taken_indices now db name"
  have "card (set ?t \<inter> {0..}) \<le> card (set ?t)" by (rule card_mono) auto
  also have "\<dots> \<le> length ?t" by (rule card_length)
  finally have "card (set ?t \<inter> {0..}) \<le> length ?t" .
  from first_free_least [OF this] show ?thesis by (simp add: lowest_free_index_def)
qed

lemma lowest_free_index_count:
  assumes "set (taken_indices now db name) = {0..<int (length (taken_indices now db name))}"
  shows "lowest_free_index now db name = int (length (taken_indices now db name))"
proof -
  let ?r = "lowest_free_index now db name" and ?c = "int (length (taken_indices now db name))"
  from lowest_free_index_least [of now db name] assms
  have r: "0 \<le> ?r" "?r \<notin> {0..<?c}" "\<forall>j. 0 \<le> j \<and> j < ?r \<longrightarrow> j \<in> {0..<?c}" by simp_all
  from r(1,2) have "?c \<le> ?r" by simp
  moreover have "\<not> ?c < ?r"
  proof
    assume "?c < ?r"
    with r(3) have "0 \<le> ?c \<and> ?c < ?r \<longrightarrow> ?c \<in> {0..<?c}" by blast
    with \<open>?c < ?r\<close> show False by simp
  qed
  ultimately show ?thesis by simp
qed

subsection \<open>The result of an announcement\<close>

text \<open>
  What \<^verbatim>\<open>announce_consumer_group_member\<close> returns: \<open>ErrGroupNotFound\<close> when the group
  does not exist, \<open>ErrCapacityExceeded\<close> when the number of unexpired leases of the group
  is at least its size, and otherwise, given a lease id that is not in use, the inserted
  lease, whose member index is that number and whose \<^verbatim>\<open>expires_at\<close> is \<^verbatim>\<open>NOW()\<close> plus
  one hour. That number is the lowest free index when the unexpired leases of the group
  hold exactly the indices from 0 up to it.
\<close>

lemma announce_consumer_group_member_result:
  "(map_of (consumer_groups db) name = None \<longrightarrow>
      announce_consumer_group_member now new_lease_id db name = Inl ErrGroupNotFound) \<and>
   (map_of (consumer_groups db) name = Some size' \<and>
    size' \<le> int (length (taken_indices now db name)) \<longrightarrow>
      announce_consumer_group_member now new_lease_id db name = Inl ErrCapacityExceeded) \<and>
   (map_of (consumer_groups db) name = Some size' \<and>
    int (length (taken_indices now db name)) < size' \<and>
    new_lease_id \<notin> lease_id ` set (consumer_group_leases db) \<longrightarrow>
      announce_consumer_group_member now new_lease_id db name =
        Inr (\<lparr>lease_id = new_lease_id, consumer_group_name = name,
               member_index = int (length (taken_indices now db name)), leased_at = now,
               expires_at = now + INTERVAL_1_HOUR, last_action_at = now\<rparr>,
             db\<lparr>consumer_group_leases := consumer_group_leases db @
                [\<lparr>lease_id = new_lease_id, consumer_group_name = name,
                  member_index = int (length (taken_indices now db name)), leased_at = now,
                  expires_at = now + INTERVAL_1_HOUR, last_action_at = now\<rparr>]\<rparr>) \<and>
      (set (taken_indices now db name) = {0..<int (length (taken_indices now db name))} \<longrightarrow>
         lowest_free_index now db name = int (length (taken_indices now db name))))"
  using lowest_free_index_count [of now db name]
  by (auto simp: announce_consumer_group_member_def taken_indices_def Let_def)

lemma leases_simps:
  "consumer_groups group_g = [(''g'', 2)]" "consumer_group_leases group_g = []"
  "consumer_groups two_leases = [(''g'', 2)]"
  "consumer_group_leases two_leases = [lease_A, lease_B']"
  by (simp_all add: group_g_def two_leases_def)

text \<open>
  C4 (the code does not do this). The claim: a successful announcement creates a lease
  whose member index is the number of unexpired leases of the group, the lowest free index.
  The errors and the expiry are as claimed (\<open>announce_consumer_group_member_result\<close>), and
  the index is that number; it is not always free. When a lease with a lower index has
  expired before one with a higher index, here \<open>lease_A\<close> (index 0) before \<open>lease_B'\<close>
  (index 1), the number is 1 and the new lease gets the index 1, which \<open>lease_B'\<close> holds,
  while the lowest free index is 0.
\<close>

theorem announce_member_index_not_free:
  "map_of (consumer_groups two_leases) ''g'' = Some 2 \<and>
   taken_indices 4000000000 two_leases ''g'' = [1] \<and>
   lowest_free_index 4000000000 two_leases ''g'' = 0 \<and>
   announce_consumer_group_member 4000000000 3 two_leases ''g'' =
     Inr (lease_C, two_leases\<lparr>consumer_group_leases := [lease_A, lease_B', lease_C]\<rparr>) \<and>
   member_index lease_C = 1 \<and>
   member_index lease_C \<in> set (taken_indices 4000000000 two_leases ''g'') \<and>
   member_index lease_C \<noteq> lowest_free_index 4000000000 two_leases ''g''"
proof -
  have "lease_C = \<lparr>lease_id = 3, consumer_group_name = ''g'', member_index = 1,
               leased_at = 4000000000, expires_at = 4000000000 + INTERVAL_1_HOUR,
               last_action_at = 4000000000\<rparr>"
    by (simp add: lease_C_def INTERVAL_1_HOUR_def)
  then have "announce_consumer_group_member 4000000000 3 two_leases ''g'' =
     Inr (lease_C, two_leases\<lparr>consumer_group_leases := [lease_A, lease_B', lease_C]\<rparr>)"
    by (simp add: announce_consumer_group_member_def leases_simps lease_simps Let_def)
  moreover have t: "taken_indices 4000000000 two_leases ''g'' = [1]"
    by (simp add: taken_indices_def leases_simps lease_simps)
  moreover have "lowest_free_index 4000000000 two_leases ''g'' = 0"
    by (simp add: lowest_free_index_def t)
  ultimately show ?thesis by (simp add: lease_simps leases_simps)
qed

subsection \<open>The invariant of the leases\<close>

text \<open>
  An announcement keeps the invariant when the unexpired leases of the group hold exactly
  the indices from 0 up to their count.
\<close>

lemma announce_keeps_lease_exclusive:
  assumes inv: "lease_exclusive now db"
    and contiguous: "set (taken_indices now db name) = {0..<int (length (taken_indices now db name))}"
    and ok: "announce_consumer_group_member now new_lease_id db name = Inr (lease, db')"
  shows "lease_exclusive now db'"
proof -
  let ?c = "int (length (taken_indices now db name))"
  let ?l = "\<lparr>lease_id = new_lease_id, consumer_group_name = name, member_index = ?c,
             leased_at = now, expires_at = now + INTERVAL_1_HOUR, last_action_at = now\<rparr>"
  from ok have db': "db' = db\<lparr>consumer_group_leases := consumer_group_leases db @ [?l]\<rparr>"
    by (auto simp: announce_consumer_group_member_def taken_indices_def Let_def
        split: option.splits if_splits)
  from contiguous have "?c \<notin> set (taken_indices now db name)" by simp
  then have fresh: "(name, ?c) \<notin> set (map (\<lambda>cgl. (consumer_group_name cgl, member_index cgl))
                (filter (\<lambda>cgl. expires_at cgl > now) (consumer_group_leases db)))"
    by (auto simp: taken_indices_def)
  with inv db' show ?thesis
    by (simp add: lease_exclusive_def INTERVAL_1_HOUR_def)
qed

text \<open>
  C2 (the code does not do this). The claim: no operation of the protocol leads to two
  unexpired leases with the same group and member index. Two members announce themselves to
  the group "g" of size 2 at time 0 and get the indices 0 and 1; after 30 minutes the
  second streams, which renews its lease; the invariant holds all along. After 66 minutes
  and 40 seconds the first lease has expired, the second has not, and the invariant holds.
  A third announcement then
  counts one unexpired lease and gets the member index 1, which the second member still
  holds: the invariant is broken.
\<close>

theorem announce_breaks_lease_exclusive:
  "lease_exclusive 0 group_g \<and>
   announce_consumer_group_member 0 1 group_g ''g'' =
     Inr (lease_A, group_g\<lparr>consumer_group_leases := [lease_A]\<rparr>) \<and>
   lease_exclusive 0 (group_g\<lparr>consumer_group_leases := [lease_A]\<rparr>) \<and>
   announce_consumer_group_member 0 2 (group_g\<lparr>consumer_group_leases := [lease_A]\<rparr>) ''g'' =
     Inr (lease_B, group_g\<lparr>consumer_group_leases := [lease_A, lease_B]\<rparr>) \<and>
   lease_exclusive 1800000000 (group_g\<lparr>consumer_group_leases := [lease_A, lease_B]\<rparr>) \<and>
   stream_all 1800000000 (group_g\<lparr>consumer_group_leases := [lease_A, lease_B]\<rparr>) 0 0 2 =
     Inr ([], two_leases) \<and>
   lease_exclusive 1800000000 two_leases \<and>
   lease_exclusive 4000000000 two_leases \<and>
   announce_consumer_group_member 4000000000 3 two_leases ''g'' =
     Inr (lease_C, two_leases\<lparr>consumer_group_leases := [lease_A, lease_B', lease_C]\<rparr>) \<and>
   \<not> lease_exclusive 4000000000
        (two_leases\<lparr>consumer_group_leases := [lease_A, lease_B', lease_C]\<rparr>) \<and>
   filter (\<lambda>cgl. expires_at cgl > 4000000000) [lease_A, lease_B', lease_C] = [lease_B', lease_C] \<and>
   (consumer_group_name lease_B', member_index lease_B') =
     (consumer_group_name lease_C, member_index lease_C) \<and>
   lease_id lease_B' \<noteq> lease_id lease_C"
proof -
  have A: "lease_A = \<lparr>lease_id = 1, consumer_group_name = ''g'', member_index = 0,
               leased_at = 0, expires_at = 0 + INTERVAL_1_HOUR, last_action_at = 0\<rparr>"
    and B: "lease_B = \<lparr>lease_id = 2, consumer_group_name = ''g'', member_index = 1,
               leased_at = 0, expires_at = 0 + INTERVAL_1_HOUR, last_action_at = 0\<rparr>"
    and C: "lease_C = \<lparr>lease_id = 3, consumer_group_name = ''g'', member_index = 1,
               leased_at = 4000000000, expires_at = 4000000000 + INTERVAL_1_HOUR,
               last_action_at = 4000000000\<rparr>"
    by (simp_all add: lease_A_def lease_B_def lease_C_def INTERVAL_1_HOUR_def)
  have 1: "announce_consumer_group_member 0 1 group_g ''g'' =
     Inr (lease_A, group_g\<lparr>consumer_group_leases := [lease_A]\<rparr>)"
    using A by (simp add: announce_consumer_group_member_def leases_simps Let_def)
  have 2: "announce_consumer_group_member 0 2 (group_g\<lparr>consumer_group_leases := [lease_A]\<rparr>) ''g'' =
     Inr (lease_B, group_g\<lparr>consumer_group_leases := [lease_A, lease_B]\<rparr>)"
    using B by (simp add: announce_consumer_group_member_def leases_simps lease_simps Let_def)
  have 3: "stream_all 1800000000 (group_g\<lparr>consumer_group_leases := [lease_A, lease_B]\<rparr>) 0 0 2 =
     Inr ([], two_leases)"
    by (simp add: stream_all_def stream_events_def lease_of_def lease_simps renewed_lease_B
        two_leases_def group_g_def)
  have 4: "lease_exclusive 4000000000 two_leases"
    by (simp add: lease_exclusive_def leases_simps lease_simps)
  have 5: "announce_consumer_group_member 4000000000 3 two_leases ''g'' =
     Inr (lease_C, two_leases\<lparr>consumer_group_leases := [lease_A, lease_B', lease_C]\<rparr>)"
    using C by (simp add: announce_consumer_group_member_def leases_simps lease_simps Let_def)
  have 6: "\<not> lease_exclusive 4000000000
        (two_leases\<lparr>consumer_group_leases := [lease_A, lease_B', lease_C]\<rparr>)"
    by (simp add: lease_exclusive_def lease_simps)
  have 7: "lease_exclusive 0 group_g \<and>
     lease_exclusive 0 (group_g\<lparr>consumer_group_leases := [lease_A]\<rparr>) \<and>
     lease_exclusive 1800000000 (group_g\<lparr>consumer_group_leases := [lease_A, lease_B]\<rparr>) \<and>
     lease_exclusive 1800000000 two_leases"
    by (simp add: lease_exclusive_def leases_simps lease_simps)
  from 1 2 3 4 5 6 7 show ?thesis by (simp add: lease_simps)
qed

end
